theory Spec2Isabelle
  imports Main "HOL-Library.Multiset"
begin

section \<open>Python strings and the character classes of \<open>re\<close>\<close>

text \<open>
  A Python \<open>str\<close> is a sequence of Unicode code points, so a string is a list of
  code points here. Keywords and delimiters of \<open>main.py\<close> are single code points or
  short sequences of them (the title delimiter is the single code point U+3001).
\<close>

type_synonym pystr = "nat list"

definition asc :: "string \<Rightarrow> pystr" where
  "asc s = map of_char s"

text \<open>
  \<open>\s\<close> of a \<open>str\<close> pattern: the code points Python's \<open>re\<close> treats as
  whitespace.
\<close>

definition is_space :: "nat \<Rightarrow> bool" where
  "is_space c \<longleftrightarrow>
     (9 \<le> c \<and> c \<le> 13) \<or> (28 \<le> c \<and> c \<le> 32) \<or> c = 133 \<or> c = 160 \<or> c = 5760 \<or>
     (8192 \<le> c \<and> c \<le> 8202) \<or> c = 8232 \<or> c = 8233 \<or> c = 8239 \<or> c = 8287 \<or> c = 12288"

text \<open>
  \<open>\d\<close> of a \<open>str\<close> pattern is the Unicode category Nd (what \<open>str.isdecimal\<close>
  accepts): runs of ten code points, each run the digits 0 to 9 of one script. The list
  holds the code point of every zero (Unicode 14.0, the database of CPython 3.11).
\<close>

definition nd_zeros :: "nat list" where
  "nd_zeros =
    [48, 1632, 1776, 1984, 2406, 2534, 2662, 2790, 2918, 3046, 3174, 3302, 3430, 3558,
     3664, 3792, 3872, 4160, 4240, 6112, 6160, 6470, 6608, 6784, 6800, 6992, 7088, 7232,
     7248, 42528, 43216, 43264, 43472, 43504, 43600, 44016, 65296, 66720, 68912, 69734,
     69872, 69942, 70096, 70384, 70736, 70864, 71248, 71360, 71472, 71904, 72016, 72784,
     73040, 73120, 92768, 92864, 93008, 120782, 120792, 120802, 120812, 120822, 123200,
     123632, 125264, 130032]"

definition decimal :: "nat \<Rightarrow> nat option" where
  "decimal c =
     (if c < 128 then (if 48 \<le> c \<and> c \<le> 57 then Some (c - 48) else None)
      else (case find (\<lambda>z. z \<le> c \<and> c < z + 10) nd_zeros of
              None \<Rightarrow> None
            | Some z \<Rightarrow> Some (c - z)))"

definition is_digit :: "nat \<Rightarrow> bool" where
  "is_digit c \<longleftrightarrow> decimal c \<noteq> None"

text \<open>The atoms of the patterns: \<open>\d\<close>, \<open>\s\<close>, \<open>.\<close> (anything but a line feed,
  since no flag is given), a literal, and an ASCII range such as \<open>[0-2]\<close>.\<close>

datatype cls = Digit | Space | AnyChar | Lit nat | Range nat nat

fun member_cls :: "cls \<Rightarrow> nat \<Rightarrow> bool" where
  "member_cls Digit c = is_digit c"
| "member_cls Space c = is_space c"
| "member_cls AnyChar c = (c \<noteq> 10)"
| "member_cls (Lit a) c = (c = a)"
| "member_cls (Range a b) c = (a \<le> c \<and> c \<le> b)"

section \<open>A backtracking matcher for the patterns of \<open>main.py\<close>\<close>

text \<open>
  The regular expressions of the module use literals, classes, bounded and unbounded
  repetition of a single class (greedy, or lazy as in \<open>.*?\<close>), alternation (in the
  pattern \<open>strptime\<close> builds from its format) and numbered groups. \<open>Rep a lo hi g\<close>
  repeats class \<open>a\<close> between \<open>lo\<close> and \<open>hi\<close> times (\<open>None\<close>: no upper bound),
  greedily when \<open>g\<close> holds.
\<close>

datatype rx =
    Eps
  | Sym cls
  | Seq rx rx
  | Alt rx rx
  | Rep cls nat "nat option" bool
  | Grp nat rx

type_synonym caps = "(nat \<times> pystr) list"

text \<open>
  The matcher works on a list of pending items, the patterns still to be matched in
  sequence; \<open>Close i s0\<close> ends group \<open>i\<close>, which was entered when the input was
  \<open>s0\<close>. When the rest of the list fails the matcher backtracks, trying the
  alternatives in the order of the \<open>re\<close> engine: the left branch of \<open>|\<close> first, one
  more repetition first for a greedy quantifier, the rest of the pattern first for a
  lazy one.
\<close>

datatype item = Match rx | Close nat pystr

fun weight :: "rx \<Rightarrow> nat" where
  "weight Eps = 1"
| "weight (Sym a) = 1"
| "weight (Seq p q) = Suc (weight p + weight q)"
| "weight (Alt p q) = Suc (weight p + weight q)"
| "weight (Rep a lo hi g) = 1"
| "weight (Grp i p) = Suc (Suc (weight p))"

fun item_weight :: "item \<Rightarrow> nat" where
  "item_weight (Match r) = weight r"
| "item_weight (Close i s0) = 1"

definition less_one :: "nat option \<Rightarrow> nat option" where
  "less_one hi = map_option (\<lambda>h. h - 1) hi"

function mts :: "item list \<Rightarrow> pystr \<Rightarrow> caps \<Rightarrow> (caps \<times> pystr) option" where
  "mts [] s c = Some (c, s)"
| "mts (Close i s0 # rs) s c = mts rs s ((i, take (length s0 - length s) s0) # c)"
| "mts (Match Eps # rs) s c = mts rs s c"
| "mts (Match (Sym a) # rs) s c =
     (case s of [] \<Rightarrow> None | x # xs \<Rightarrow> if member_cls a x then mts rs xs c else None)"
| "mts (Match (Seq p q) # rs) s c = mts (Match p # Match q # rs) s c"
| "mts (Match (Alt p q) # rs) s c =
     (case mts (Match p # rs) s c of Some r \<Rightarrow> Some r | None \<Rightarrow> mts (Match q # rs) s c)"
| "mts (Match (Grp i p) # rs) s c = mts (Match p # Close i s # rs) s c"
| "mts (Match (Rep a lo hi greedy) # rs) s c =
     (if 0 < lo then
        (case s of
           [] \<Rightarrow> None
         | x # xs \<Rightarrow>
             if member_cls a x
             then mts (Match (Rep a (lo - 1) (less_one hi) greedy) # rs) xs c
             else None)
      else if hi = Some 0 then mts rs s c
      else
        (case s of
           [] \<Rightarrow> mts rs s c
         | x # xs \<Rightarrow>
             if \<not> member_cls a x then mts rs s c
             else if greedy then
               (case mts (Match (Rep a 0 (less_one hi) greedy) # rs) xs c of
                  Some r \<Rightarrow> Some r
                | None \<Rightarrow> mts rs s c)
             else
               (case mts rs s c of
                  Some r \<Rightarrow> Some r
                | None \<Rightarrow> mts (Match (Rep a 0 (less_one hi) greedy) # rs) xs c)))"
  by pat_completeness auto
termination
  by (relation "measures [\<lambda>(rs, s, c). sum_list (map item_weight rs), \<lambda>(rs, s, c). length s]")
     auto

text \<open>A match object: the captured groups and the input left after the match.\<close>

record match =
  groups :: caps
  after :: pystr

definition match_here :: "rx \<Rightarrow> pystr \<Rightarrow> match option" where
  "match_here r s =
     (case mts [Match r] s [] of
        None \<Rightarrow> None
      | Some (c, s') \<Rightarrow> Some \<lparr>groups = c, after = s'\<rparr>)"

text \<open>\<open>m.group(i)\<close>: the latest capture of group \<open>i\<close>. Every group of the
  patterns below takes part in every match.\<close>

definition group :: "match \<Rightarrow> nat \<Rightarrow> pystr" where
  "group m i = (case map_of (groups m) i of Some g \<Rightarrow> g | None \<Rightarrow> [])"

text \<open>\<open>re.search\<close>: the match at the leftmost position that has one.\<close>

fun re_search :: "rx \<Rightarrow> pystr \<Rightarrow> match option" where
  "re_search r [] = match_here r []"
| "re_search r (x # xs) =
     (case match_here r (x # xs) of Some m \<Rightarrow> Some m | None \<Rightarrow> re_search r xs)"

text \<open>
  The matches \<open>re.findall\<close> reports: the scan goes on from the end of each match.
  (After a match that consumed nothing Python's scanner has rules of its own; the one
  pattern scanned here opens with a literal bracket and never matches the empty string,
  see \<open>finditer_AGENTS\<close>, so the scan simply ends there.)
\<close>

fun re_finditer :: "rx \<Rightarrow> pystr \<Rightarrow> match list" where
  "re_finditer r s =
     (case re_search r s of
        None \<Rightarrow> []
      | Some m \<Rightarrow>
          if length (after m) < length s then m # re_finditer r (after m)
          else [m])"

declare re_finditer.simps [simp del]

text \<open>Concatenation of a list of patterns, and a literal string as a pattern.\<close>

fun cat :: "rx list \<Rightarrow> rx" where
  "cat [] = Eps"
| "cat [r] = r"
| "cat (r # rs) = Seq r (cat rs)"

definition lit :: "pystr \<Rightarrow> rx" where
  "lit s = cat (map (\<lambda>c. Sym (Lit c)) s)"

section \<open>Strings: \<open>in\<close>, \<open>split\<close>, \<open>join\<close>, \<open>dict.fromkeys\<close>, \<open>int\<close>\<close>

fun starts_with :: "'a list \<Rightarrow> 'a list \<Rightarrow> bool" where
  "starts_with [] ys = True"
| "starts_with (x # xs) [] = False"
| "starts_with (x # xs) (y # ys) = (x = y \<and> starts_with xs ys)"

text \<open>\<open>needle in hay\<close> for two strings.\<close>

fun contains :: "'a list \<Rightarrow> 'a list \<Rightarrow> bool" where
  "contains needle [] = (needle = [])"
| "contains needle (y # ys) = (starts_with needle (y # ys) \<or> contains needle ys)"

text \<open>\<open>s.split(sep)\<close> for a separator of one code point: never an empty list.\<close>

fun split :: "nat \<Rightarrow> pystr \<Rightarrow> pystr list" where
  "split sep [] = [[]]"
| "split sep (x # xs) =
     (if x = sep then [] # split sep xs
      else (case split sep xs of [] \<Rightarrow> [[x]] | y # ys \<Rightarrow> (x # y) # ys))"

text \<open>\<open>sep.join(xs)\<close>.\<close>

fun join :: "pystr \<Rightarrow> pystr list \<Rightarrow> pystr" where
  "join sep [] = []"
| "join sep [x] = x"
| "join sep (x # y # ys) = x @ sep @ join sep (y # ys)"

text \<open>
  \<open>list(dict.fromkeys(xs))\<close>: the keys in the order of their first insertion; a key
  already present keeps its place.
\<close>

fun fromkeys_into :: "'a list \<Rightarrow> 'a list \<Rightarrow> 'a list" where
  "fromkeys_into keys [] = keys"
| "fromkeys_into keys (x # xs) =
     fromkeys_into (if x \<in> set keys then keys else keys @ [x]) xs"

definition fromkeys :: "'a list \<Rightarrow> 'a list" where
  "fromkeys xs = fromkeys_into [] xs"

text \<open>The exceptions that occur in the modelled code.\<close>

datatype error = ValueError | TypeError | KeyError | OverflowError

text \<open>
  \<open>int(s)\<close> on the text of a group of the \<open>strptime\<close> pattern: decimal digits of
  any script, with surrounding whitespace ignored (one alternative of \<open>%d\<close> has a
  leading blank). Signs and underscores, which \<open>int\<close> also reads, cannot occur in
  such a group.
\<close>

fun digits_value :: "nat \<Rightarrow> pystr \<Rightarrow> nat option" where
  "digits_value acc [] = Some acc"
| "digits_value acc (c # cs) =
     (case decimal c of None \<Rightarrow> None | Some d \<Rightarrow> digits_value (10 * acc + d) cs)"

definition strip :: "pystr \<Rightarrow> pystr" where
  "strip s = rev (dropWhile is_space (rev (dropWhile is_space s)))"

definition py_int :: "pystr \<Rightarrow> nat option" where
  "py_int s = (let t = strip s in if t = [] then None else digits_value 0 t)"

section \<open>Datetimes\<close>

text \<open>
  A \<open>datetime\<close> holds a point of the proleptic Gregorian calendar between
  0001-01-01T00:00:00 and 9999-12-31T23:59:59.999999, at microsecond resolution: here
  \<open>micros\<close>, the number of microseconds since the first of these. It is naive
  (\<open>Datetime\<close>: what \<open>strptime\<close> with the format of \<open>main.py\<close> and
  \<open>fromtimestamp\<close> without a zone return), or aware (\<open>Aware\<close>: it carries a fixed
  UTC offset, as \<open>fromisoformat\<close> returns for a string that ends in an offset such as
  \<open>+08:00\<close>). A \<open>timedelta\<close>, and so an offset, is a number of microseconds.
\<close>

datatype datetime = Datetime (micros: int) | Aware (micros: int) (utcoffset: int)

definition is_leap :: "int \<Rightarrow> bool" where
  "is_leap y \<longleftrightarrow> y mod 4 = 0 \<and> (y mod 100 \<noteq> 0 \<or> y mod 400 = 0)"

definition days_before_year :: "int \<Rightarrow> int" where
  "days_before_year year = (let y = year - 1 in y * 365 + y div 4 - y div 100 + y div 400)"

definition days_in_month :: "int \<Rightarrow> int \<Rightarrow> int" where
  "days_in_month year month =
     (if month = 2 \<and> is_leap year then 29
      else [31, 28, 31, 30, 31, 30, 31, 31, 30, 31, 30, 31] ! nat (month - 1))"

definition days_before_month :: "int \<Rightarrow> int \<Rightarrow> int" where
  "days_before_month year month =
     [0, 31, 59, 90, 120, 151, 181, 212, 243, 273, 304, 334] ! nat (month - 1)
       + (if month > 2 \<and> is_leap year then 1 else 0)"

definition ymd2ord :: "int \<Rightarrow> int \<Rightarrow> int \<Rightarrow> int" where
  "ymd2ord year month day = days_before_year year + days_before_month year month + day"

definition day_micros :: int where
  "day_micros = 86400000000"


text \<open>One past \<open>datetime.max\<close>, whose date has the ordinal 3652059.\<close>

definition max_micros :: int where
  "max_micros = 3652059 * day_micros"

text \<open>The values the library can build: the local time within the calendar, an offset
  strictly between minus and plus one day.\<close>

definition valid_datetime :: "datetime \<Rightarrow> bool" where
  "valid_datetime t \<longleftrightarrow>
     0 \<le> micros t \<and> micros t < max_micros \<and>
     (case t of
        Datetime m \<Rightarrow> True
      | Aware m off \<Rightarrow> - day_micros < off \<and> off < day_micros)"

text \<open>
  The constructor \<open>datetime(year, month, day, hour, minute, second, microsecond)\<close>
  with its range checks, each a \<open>ValueError\<close>. The indexing of the month tables
  happens only behind the check of the month.
\<close>

definition mk_datetime ::
  "int \<Rightarrow> int \<Rightarrow> int \<Rightarrow> int \<Rightarrow> int \<Rightarrow> int \<Rightarrow> int \<Rightarrow> error + datetime" where
  "mk_datetime year month day hour minute second us =
     (if \<not> (1 \<le> year \<and> year \<le> 9999) then Inl ValueError
      else if \<not> (1 \<le> month \<and> month \<le> 12) then Inl ValueError
      else if \<not> (1 \<le> day \<and> day \<le> days_in_month year month) then Inl ValueError
      else if \<not> (0 \<le> hour \<and> hour \<le> 23) then Inl ValueError
      else if \<not> (0 \<le> minute \<and> minute \<le> 59) then Inl ValueError
      else if \<not> (0 \<le> second \<and> second \<le> 59) then Inl ValueError
      else if \<not> (0 \<le> us \<and> us \<le> 999999) then Inl ValueError
      else Inr (Datetime
        ((ymd2ord year month day - 1) * day_micros
          + ((hour * 60 + minute) * 60 + second) * 1000000 + us)))"

text \<open>
  \<open>a - b\<close>: the difference of the local times of two naive datetimes, the difference
  of the UTC instants of two aware ones, and a \<open>TypeError\<close> between a naive and an
  aware one.
\<close>

fun dt_diff :: "datetime \<Rightarrow> datetime \<Rightarrow> error + int" where
  "dt_diff (Datetime a) (Datetime b) = Inr (a - b)"
| "dt_diff (Aware a off_a) (Aware b off_b) = Inr ((a - off_a) - (b - off_b))"
| "dt_diff (Datetime a) (Aware b off_b) = Inl TypeError"
| "dt_diff (Aware a off_a) (Datetime b) = Inl TypeError"


text \<open>\<open>a < b\<close> where the library compares (it raises between a naive and an aware
  datetime): \<open>b - a\<close> is positive.\<close>

definition dt_less :: "datetime \<Rightarrow> datetime \<Rightarrow> bool" where
  "dt_less a b \<longleftrightarrow> (case dt_diff b a of Inr d \<Rightarrow> 0 < d | Inl err \<Rightarrow> False)"

text \<open>The calendar date of an ordinal, as the library computes it.\<close>

definition ord2ymd :: "int \<Rightarrow> int \<times> int \<times> int" where
  "ord2ymd ordinal =
     (let n0 = ordinal - 1;
          n400 = n0 div 146097; r400 = n0 mod 146097;
          n100 = r400 div 36524; r100 = r400 mod 36524;
          n4 = r100 div 1461; r4 = r100 mod 1461;
          n1 = r4 div 365; n = r4 mod 365;
          year = n400 * 400 + 1 + n100 * 100 + n4 * 4 + n1
      in if n1 = 4 \<or> n100 = 4 then (year - 1, 12, 31)
         else
           (let leapyear = (n1 = 3 \<and> (n4 \<noteq> 24 \<or> n100 = 3));
                month = (n + 50) div 32;
                preceding = days_before_month (if leapyear then 4 else 1) month
            in if preceding > n
               then (year, month - 1,
                     n - (preceding - days_in_month (if leapyear then 4 else 1) (month - 1)) + 1)
               else (year, month, n - preceding + 1)))"

text \<open>Zero-padded decimal output, \<open>'%0wd'\<close>, for a number of at most \<open>w\<close> digits.\<close>

fun pad :: "nat \<Rightarrow> nat \<Rightarrow> pystr" where
  "pad 0 n = []"
| "pad (Suc w) n = pad w (n div 10) @ [48 + n mod 10]"

text \<open>
  The offset as \<open>isoformat\<close> prints it: the sign, \<open>HH:MM\<close>, then \<open>:SS\<close> when the
  offset is not a whole number of minutes, then \<open>.ffffff\<close> when it is not a whole
  number of seconds.
\<close>

definition format_offset :: "int \<Rightarrow> pystr" where
  "format_offset off =
     (let a = \<bar>off\<bar>;
          hh = a div 3600000000; below_hour = a mod 3600000000;
          mm = below_hour div 60000000; below_minute = below_hour mod 60000000;
          ss = below_minute div 1000000; us = below_minute mod 1000000
      in (if off < 0 then asc ''-'' else asc ''+'') @ pad 2 (nat hh) @ asc '':'' @ pad 2 (nat mm)
         @ (if below_minute = 0 then []
            else asc '':'' @ pad 2 (nat ss) @ (if us = 0 then [] else asc ''.'' @ pad 6 (nat us))))"

text \<open>\<open>t.isoformat()\<close>: \<open>YYYY-MM-DDTHH:MM:SS\<close>, \<open>.ffffff\<close> behind it when the
  microseconds are not zero, and the offset of an aware datetime at the end.\<close>

definition isoformat :: "datetime \<Rightarrow> pystr" where
  "isoformat t =
     (let days = micros t div day_micros; rest = micros t mod day_micros;
          (y, m, d) = ord2ymd (days + 1);
          secs = rest div 1000000; us = rest mod 1000000
      in pad 4 (nat y) @ asc ''-'' @ pad 2 (nat m) @ asc ''-'' @ pad 2 (nat d) @ asc ''T''
         @ pad 2 (nat (secs div 3600)) @ asc '':'' @ pad 2 (nat (secs div 60 mod 60))
         @ asc '':'' @ pad 2 (nat (secs mod 60))
         @ (if us = 0 then [] else asc ''.'' @ pad 6 (nat us))
         @ (case t of Datetime n \<Rightarrow> [] | Aware n off \<Rightarrow> format_offset off))"

section \<open>\<open>datetime.strptime(text, '%Y/%m/%d %H:%M:%S')\<close>\<close>

text \<open>
  \<open>strptime\<close> turns the format into a regular expression, matches it at the start of
  the text, refuses text left over, reads the groups with \<open>int\<close> and calls the
  constructor. Every failure is a \<open>ValueError\<close>. For this format the expression is
  \<^verbatim>\<open>(?P<Y>\d\d\d\d)/(?P<m>1[0-2]|0[1-9]|[1-9])/(?P<d>3[0-1]|[1-2]\d|0[1-9]|[1-9]| [1-9])\s+\<close>
  \<^verbatim>\<open>(?P<H>2[0-3]|[0-1]\d|\d):(?P<M>[0-5]\d|\d):(?P<S>6[0-1]|[0-5]\d|\d)\<close>
  (the blank of the format stands for \<open>\s+\<close>).
\<close>

definition ch :: "char \<Rightarrow> rx" where
  "ch c = Sym (Lit (of_char c))"

definition rng :: "char \<Rightarrow> char \<Rightarrow> rx" where
  "rng a b = Sym (Range (of_char a) (of_char b))"

definition STRPTIME_RE :: rx where
  "STRPTIME_RE = cat
     [Grp 1 (cat [Sym Digit, Sym Digit, Sym Digit, Sym Digit]),
      ch CHR ''/'',
      Grp 2 (Alt (Seq (ch CHR ''1'') (rng CHR ''0'' CHR ''2''))
            (Alt (Seq (ch CHR ''0'') (rng CHR ''1'' CHR ''9''))
                 (rng CHR ''1'' CHR ''9''))),
      ch CHR ''/'',
      Grp 3 (Alt (Seq (ch CHR ''3'') (rng CHR ''0'' CHR ''1''))
            (Alt (Seq (rng CHR ''1'' CHR ''2'') (Sym Digit))
            (Alt (Seq (ch CHR ''0'') (rng CHR ''1'' CHR ''9''))
            (Alt (rng CHR ''1'' CHR ''9'')
                 (Seq (ch CHR '' '') (rng CHR ''1'' CHR ''9'')))))),
      Rep Space 1 None True,
      Grp 4 (Alt (Seq (ch CHR ''2'') (rng CHR ''0'' CHR ''3''))
            (Alt (Seq (rng CHR ''0'' CHR ''1'') (Sym Digit))
                 (Sym Digit))),
      ch CHR '':'',
      Grp 5 (Alt (Seq (rng CHR ''0'' CHR ''5'') (Sym Digit)) (Sym Digit)),
      ch CHR '':'',
      Grp 6 (Alt (Seq (ch CHR ''6'') (rng CHR ''0'' CHR ''1''))
            (Alt (Seq (rng CHR ''0'' CHR ''5'') (Sym Digit))
                 (Sym Digit)))]"

definition strptime :: "pystr \<Rightarrow> error + datetime" where
  "strptime s =
     (case match_here STRPTIME_RE s of
        None \<Rightarrow> Inl ValueError
      | Some m \<Rightarrow>
          if after m \<noteq> [] then Inl ValueError
          else
            (case (py_int (group m 1), py_int (group m 2), py_int (group m 3),
                   py_int (group m 4), py_int (group m 5), py_int (group m 6)) of
               (Some y, Some mo, Some d, Some h, Some mi, Some sec) \<Rightarrow>
                 mk_datetime (int y) (int mo) (int d) (int h) (int mi) (int sec) 0
             | _ \<Rightarrow> Inl ValueError))"

section \<open>The constants of \<open>main.py\<close>\<close>

text \<open>\<^verbatim>\<open>AGENTS_PATTERN = r'\[(.*?)\((.*?)\)\]'\<close>\<close>

definition AGENTS_PATTERN :: rx where
  "AGENTS_PATTERN = cat
     [ch CHR ''['', Grp 1 (Rep AnyChar 0 None False), ch CHR ''('',
      Grp 2 (Rep AnyChar 0 None False), ch CHR '')'', ch CHR '']'']"

text \<open>The timestamp both time patterns share:
  \<^verbatim>\<open>\d{4}/\d{1,2}/\d{1,2}\s+\d{1,2}:\d{2}:\d{2}\<close>\<close>

definition STAMP :: rx where
  "STAMP = cat
     [Rep Digit 4 (Some 4) True, ch CHR ''/'', Rep Digit 1 (Some 2) True, ch CHR ''/'',
      Rep Digit 1 (Some 2) True, Rep Space 1 None True, Rep Digit 1 (Some 2) True,
      ch CHR '':'', Rep Digit 2 (Some 2) True, ch CHR '':'', Rep Digit 2 (Some 2) True]"

text \<open>\<open>TIME_PATTERN\<close>: \<^verbatim>\<open>(STAMP)\s*~\s*(STAMP)\<close>\<close>

definition TIME_PATTERN :: rx where
  "TIME_PATTERN = cat
     [Grp 1 STAMP, Rep Space 0 None True, ch CHR ''~'', Rep Space 0 None True, Grp 2 STAMP]"

text \<open>The five code points of the words "after the version update" in
  \<open>VERSION_PATTERN\<close>.\<close>

definition AFTER_UPDATE :: pystr where
  "AFTER_UPDATE = [29256, 26412, 26356, 26032, 21518]"

text \<open>\<open>VERSION_PATTERN\<close>: \<^verbatim>\<open>(\d+\.\d+)\<close>, the five code points, \<^verbatim>\<open>\s*~\s*(STAMP)\<close>\<close>

definition VERSION_PATTERN :: rx where
  "VERSION_PATTERN = cat
     [Grp 1 (cat [Rep Digit 1 None True, ch CHR ''.'', Rep Digit 1 None True]),
      lit AFTER_UPDATE, Rep Space 0 None True, ch CHR ''~'', Rep Space 0 None True,
      Grp 2 STAMP]"

text \<open>The keyword of engine posts, the keyword of agent posts, the title delimiter
  (one code point, U+3001).\<close>

definition ENGINE :: pystr where
  "ENGINE = [38899, 25806]"

definition AGENT :: pystr where
  "AGENT = [20195, 29702, 20154]"

definition DELIM :: nat where
  "DELIM = 12289"

section \<open>\<open>PostCrawler\<close>: the version cache and the external lookup\<close>

text \<open>
  What \<open>json.load\<close> can return for \<open>version.json\<close>: the expected object of
  version labels and ISO strings, or any other JSON value. \<open>JOther\<close> stands for a
  number, a boolean or \<open>null\<close>.
\<close>

datatype jv = JStr pystr | JOther | JList "jv list" | JDict "(pystr \<times> jv) list"

text \<open>
  The answer to the search request: \<open>NoReply\<close> when the request, the decoding of the
  answer or an access to one of its fields raises; otherwise the \<open>retcode\<close> and, for
  the posts of \<open>data.list\<close> in their order, the subject and the \<open>created_at\<close> stamp.
\<close>

datatype response = NoReply | Reply int "(pystr \<times> int) list"

text \<open>
  The surroundings the crawler calls: the library's \<open>datetime.fromisoformat\<close> (its
  result is aware when the string carries an offset) and \<open>datetime.fromtimestamp\<close>
  (\<open>None\<close> when they raise; the accepted strings and the local time zone belong to the
  Python installation, not to \<open>main.py\<close>), and the search service, asked for a version
  label.
\<close>

record env =
  fromisoformat :: "pystr \<Rightarrow> datetime option"
  fromtimestamp :: "int \<Rightarrow> datetime option"
  search_posts :: "pystr \<Rightarrow> response"

text \<open>
  The state the crawler changes: the content of \<open>version.json\<close> (\<open>None\<close> when it
  cannot be opened or decoded), whether the file can be opened for writing, and two
  counters kept for the proofs: the version labels sent to the search service, in
  order, and the number of completed \<open>json.dump\<close> calls.
\<close>

record world =
  version_file :: "jv option"
  writable :: bool
  lookups :: "pystr list"
  dumps :: nat

text \<open>\<open>version in version_data\<close> and \<open>version_data[version]\<close> for each kind of
  loaded value.\<close>

fun py_in :: "pystr \<Rightarrow> jv \<Rightarrow> error + bool" where
  "py_in k (JDict kvs) = Inr (map_of kvs k \<noteq> None)"
| "py_in k (JList xs) = Inr (JStr k \<in> set xs)"
| "py_in k (JStr s) = Inr (contains k s)"
| "py_in k JOther = Inl TypeError"

fun py_getitem :: "jv \<Rightarrow> pystr \<Rightarrow> error + jv" where
  "py_getitem (JDict kvs) k = (case map_of kvs k of None \<Rightarrow> Inl KeyError | Some v \<Rightarrow> Inr v)"
| "py_getitem v k = Inl TypeError"

text \<open>\<open>d[k] = v\<close> on a dict: a present key keeps its place, a new one goes last.\<close>

definition dict_set :: "'k \<Rightarrow> 'v \<Rightarrow> ('k \<times> 'v) list \<Rightarrow> ('k \<times> 'v) list" where
  "dict_set k v kvs =
     (if map_of kvs k = None then kvs @ [(k, v)]
      else map (\<lambda>(k', v'). if k' = k then (k', v) else (k', v')) kvs)"

definition load_version_data :: "world \<Rightarrow> jv" where
  "load_version_data w = (case version_file w of None \<Rightarrow> JDict [] | Some v \<Rightarrow> v)"

text \<open>The title of the publisher's version post is the bracketed station name, the
  version label and the word for "version".\<close>

definition STATION :: pystr where
  "STATION = [12304, 32477, 21306, 38646, 32499, 32593, 24773, 25253, 31449, 12305]"

definition VERSION_WORD :: pystr where
  "VERSION_WORD = [29256, 26412]"

definition fetch_version_start_time :: "env \<Rightarrow> world \<Rightarrow> pystr \<Rightarrow> datetime option \<times> world" where
  "fetch_version_start_time e w version =
     (let w' = w\<lparr>lookups := lookups w @ [version]\<rparr>
      in case search_posts e version of
           NoReply \<Rightarrow> (None, w')
         | Reply retcode posts \<Rightarrow>
             (case posts of
                [] \<Rightarrow> (None, w')
              | (subject, created_at) # _ \<Rightarrow>
                  if retcode = 0 \<and> contains (STATION @ version @ VERSION_WORD) subject
                  then (fromtimestamp e created_at, w')
                  else (None, w')))"

text \<open>
  \<open>_save_version_data\<close> swallows its exceptions: the item assignment fails on a loaded
  value that is not a dict, the \<open>open\<close> fails on a file that cannot be written.
\<close>

definition save_version_data :: "world \<Rightarrow> pystr \<Rightarrow> datetime \<Rightarrow> jv \<Rightarrow> world" where
  "save_version_data w version start version_data =
     (case version_data of
        JDict kvs \<Rightarrow>
          if writable w
          then w\<lparr>version_file := Some (JDict (dict_set version (JStr (isoformat start)) kvs)),
                 dumps := Suc (dumps w)\<rparr>
          else w
      | _ \<Rightarrow> w)"

text \<open>
  \<open>_get_version_start_time\<close>: every exception inside ends in \<open>return None\<close>. A
  \<open>datetime\<close> is always true, so \<open>if start_time\<close> asks whether the fetch answered.
\<close>

definition get_version_start_time :: "env \<Rightarrow> world \<Rightarrow> pystr \<Rightarrow> datetime option \<times> world" where
  "get_version_start_time e w version =
     (let version_data = load_version_data w
      in case py_in version version_data of
           Inl err \<Rightarrow> (None, w)
         | Inr True \<Rightarrow>
             (case py_getitem version_data version of
                Inr (JStr stamp) \<Rightarrow> (fromisoformat e stamp, w)
              | _ \<Rightarrow> (None, w))
         | Inr False \<Rightarrow>
             (case fetch_version_start_time e w version of
                (None, w') \<Rightarrow> (None, w')
              | (Some start, w') \<Rightarrow>
                  (Some start, save_version_data w' version start version_data)))"

section \<open>\<open>PostCrawler\<close>: from the text of a post to an event\<close>

record event =
  title :: pystr
  start_time :: datetime
  end_time :: datetime
  description :: pystr

definition is_valid_post_content :: "pystr \<Rightarrow> pystr \<Rightarrow> bool" where
  "is_valid_post_content post_title body =
     (if contains ENGINE body then False
      else if \<not> contains AGENT body then False
      else True)"

text \<open>\<open>_extract_agents_title\<close>: each match contributes \<open>name(qualifier)\<close>.\<close>

definition agent_label :: "match \<Rightarrow> pystr" where
  "agent_label m = group m 1 @ asc ''('' @ group m 2 @ asc '')''"

definition extract_agents_title :: "pystr \<Rightarrow> pystr option" where
  "extract_agents_title body =
     (let agents_matches = re_finditer AGENTS_PATTERN body
      in if agents_matches \<noteq> []
         then Some (join [DELIM] (fromkeys (map agent_label agents_matches)))
         else None)"

definition parse_direct_time :: "match \<Rightarrow> error + datetime \<times> datetime" where
  "parse_direct_time time_match =
     (case strptime (group time_match 1) of
        Inl err \<Rightarrow> Inl err
      | Inr start \<Rightarrow>
          (case strptime (group time_match 2) of
             Inl err \<Rightarrow> Inl err
           | Inr end_t \<Rightarrow> Inr (start, end_t)))"

text \<open>\<open>_parse_version_time\<close>: the end is parsed before the \<open>try\<close>, so its
  \<open>ValueError\<close> leaves the function; a failed resolution is \<open>return None\<close>.\<close>

definition parse_version_time ::
  "env \<Rightarrow> world \<Rightarrow> match \<Rightarrow> (error + (datetime \<times> datetime) option) \<times> world" where
  "parse_version_time e w version_match =
     (case strptime (group version_match 2) of
        Inl err \<Rightarrow> (Inl err, w)
      | Inr end_t \<Rightarrow>
          (case get_version_start_time e w (group version_match 1) of
             (Some start, w') \<Rightarrow> (Inr (Some (start, end_t)), w')
           | (None, w') \<Rightarrow> (Inr None, w')))"

definition extract_event_time ::
  "env \<Rightarrow> world \<Rightarrow> pystr \<Rightarrow> (error + (datetime \<times> datetime) option) \<times> world" where
  "extract_event_time e w body =
     (case re_search TIME_PATTERN body of
        Some time_match \<Rightarrow>
          (case parse_direct_time time_match of
             Inl err \<Rightarrow> (Inl err, w)
           | Inr window \<Rightarrow> (Inr (Some window), w))
      | None \<Rightarrow>
          (case re_search VERSION_PATTERN body of
             Some version_match \<Rightarrow> parse_version_time e w version_match
           | None \<Rightarrow> (Inr None, w)))"

text \<open>
  \<open>parse_post_content\<close> from the point where the page is loaded: \<open>post_title\<close> and
  \<open>body\<close> are the stripped texts of the title and content elements. An exception of
  the extraction is caught and gives \<open>None\<close>; \<open>x or title\<close> takes \<open>title\<close> when
  \<open>x\<close> is \<open>None\<close> or empty.
\<close>

definition parse_post_content :: "env \<Rightarrow> world \<Rightarrow> pystr \<Rightarrow> pystr \<Rightarrow> event option \<times> world" where
  "parse_post_content e w post_title body =
     (if body = [] then (None, w)
      else if \<not> is_valid_post_content post_title body then (None, w)
      else
        (let derived = extract_agents_title body;
             ttl = (case derived of
                      None \<Rightarrow> post_title
                    | Some t \<Rightarrow> if t = [] then post_title else t)
         in case extract_event_time e w body of
              (Inr (Some (start, end_t)), w') \<Rightarrow>
                (Some \<lparr>title = ttl, start_time = start, end_time = end_t, description = []\<rparr>, w')
            | (_, w') \<Rightarrow> (None, w')))"

section \<open>\<open>merge_events\<close>\<close>

text \<open>
  The dict \<open>events_by_time\<close> is a list of key and event in insertion order. Events are
  values here: the assignment to the title of the stored event is an update of the
  entry.
\<close>

type_synonym time_key = "pystr \<times> pystr"

definition time_key_of :: "event \<Rightarrow> time_key" where
  "time_key_of ev = (isoformat (start_time ev), isoformat (end_time ev))"

definition merge_titles :: "pystr \<Rightarrow> pystr \<Rightarrow> pystr" where
  "merge_titles existing new = join [DELIM] (fromkeys (split DELIM existing @ split DELIM new))"

definition merge_event :: "(time_key \<times> event) list \<Rightarrow> event \<Rightarrow> (time_key \<times> event) list" where
  "merge_event events_by_time ev =
     (let k = time_key_of ev
      in if map_of events_by_time k = None then events_by_time @ [(k, ev)]
         else map (\<lambda>(k', ex). if k' = k then (k', ex\<lparr>title := merge_titles (title ex) (title ev)\<rparr>)
                                else (k', ex)) events_by_time)"

definition merge_events :: "event list \<Rightarrow> (time_key \<times> event) list" where
  "merge_events events = foldl merge_event [] events"

section \<open>\<open>ICSGenerator.add_event\<close>\<close>






section \<open>Concrete surroundings for the examples\<close>

text \<open>No cache file, no network: every lookup fails.\<close>

definition offline_env :: env where
  "offline_env =
     \<lparr>fromisoformat = (\<lambda>s. None), fromtimestamp = (\<lambda>n. None), search_posts = (\<lambda>v. NoReply)\<rparr>"

definition empty_world :: world where
  "empty_world = \<lparr>version_file = None, writable = False, lookups = [], dumps = 0\<rparr>"

text \<open>
  Version 1.5 was released on 2024-03-15T12:00:00 (local time, the stamp 1710475200):
  the library functions on the two inputs that occur, a search service that knows the
  version post, a cache that holds the version, and a cache that does not.
\<close>

definition release_1_5 :: datetime where
  "release_1_5 = Datetime 63846100800000000"

definition stub_env :: env where
  "stub_env =
     \<lparr>fromisoformat = (\<lambda>s. if s = asc ''2024-03-15T12:00:00'' then Some release_1_5 else None),
      fromtimestamp = (\<lambda>n. if n = 1710475200 then Some release_1_5 else None),
      search_posts = (\<lambda>v. if v = asc ''1.5''
                           then Reply 0 [(STATION @ asc ''1.5'' @ VERSION_WORD, 1710475200)]
                           else NoReply)\<rparr>"

definition cached_world :: world where
  "cached_world =
     \<lparr>version_file = Some (JDict [(asc ''1.5'', JStr (asc ''2024-03-15T12:00:00''))]),
      writable = True, lookups = [], dumps = 0\<rparr>"

definition fresh_world :: world where
  "fresh_world = \<lparr>version_file = Some (JDict []), writable = True, lookups = [], dumps = 0\<rparr>"

text \<open>Example bodies: a direct window, a version-relative window, both in one body, a
  direct window whose start is not a date of the calendar, and one whose end precedes
  its start.\<close>

definition direct_body :: pystr where
  "direct_body = asc ''2024/3/1 10:00:00 ~ 2024/3/22 10:00:00''"

definition version_body :: pystr where
  "version_body = asc ''1.5'' @ AFTER_UPDATE @ asc '' ~ 2024/4/1 10:00:00''"

definition both_body :: pystr where
  "both_body = direct_body @ asc '' '' @ version_body"

definition feb30_body :: pystr where
  "feb30_body = asc ''2024/2/30 10:00:00 ~ 2024/3/22 10:00:00''"

definition reversed_body :: pystr where
  "reversed_body = AGENT @ asc '' 2024/3/22 10:00:00 ~ 2024/3/1 10:00:00''"

definition instant_body :: pystr where
  "instant_body = AGENT @ asc '' 2024/3/1 10:00:00 ~ 2024/3/1 10:00:00''"

text \<open>A version-relative window whose end is not a date of the calendar.\<close>

definition version_feb30_body :: pystr where
  "version_feb30_body = asc ''1.5'' @ AFTER_UPDATE @ asc '' ~ 2024/2/30 10:00:00''"

text \<open>
  Deduplication that keeps the order in which the elements are first seen, stated
  directly: the head stays and its later copies go. \<open>fromkeys\<close> is proved to compute
  it.
\<close>

fun first_seen :: "'a list \<Rightarrow> 'a list" where
  "first_seen [] = []"
| "first_seen (x # xs) = x # first_seen (removeAll x xs)"

definition bracket_body :: pystr where
  "bracket_body = AGENT @ asc ''[A(B)][C(D)][A(B)] 2024/3/1 10:00:00 ~ 2024/3/22 10:00:00''"

text \<open>The title segments of the merged event stored under a key (none when the key is
  absent): what is left when the order and the repetitions in a title are forgotten.\<close>

definition title_segments :: "(time_key \<times> event) list \<Rightarrow> time_key \<Rightarrow> pystr set" where
  "title_segments d k =
     (case map_of d k of None \<Rightarrow> {} | Some ev \<Rightarrow> set (split DELIM (title ev)))"

text \<open>Two banners over the same window, and one with a description of its own.\<close>

definition event_A :: event where
  "event_A = \<lparr>title = asc ''A'', start_time = Datetime 63844884000000000,
              end_time = Datetime 63846698400000000, description = asc ''first''\<rparr>"

definition event_B :: event where
  "event_B = \<lparr>title = asc ''B'', start_time = Datetime 63844884000000000,
              end_time = Datetime 63846698400000000, description = asc ''second''\<rparr>"



text \<open>Resolving the same version twice in sequence: the two results and the state after
  the second call.\<close>

definition resolve_twice ::
  "env \<Rightarrow> world \<Rightarrow> pystr \<Rightarrow> datetime option \<times> datetime option \<times> world" where
  "resolve_twice e w version =
     (case get_version_start_time e w version of
        (r1, w1) \<Rightarrow>
          (case get_version_start_time e w1 version of
             (r2, w2) \<Rightarrow> (r1, r2, w2)))"

text \<open>A cache whose entry for version 1.5 is not an ISO timestamp.\<close>

definition corrupt_world :: world where
  "corrupt_world =
     \<lparr>version_file = Some (JDict [(asc ''1.5'', JStr (asc ''soon''))]),
      writable = True, lookups = [], dumps = 0\<rparr>"


text \<open>Two banners with titles of two segments over the window of \<open>event_A\<close>.\<close>

definition event_AB :: event where
  "event_AB = \<lparr>title = [65, 12289, 66], start_time = Datetime 63844884000000000,
               end_time = Datetime 63846698400000000, description = []\<rparr>"

definition event_BC :: event where
  "event_BC = \<lparr>title = [66, 12289, 67], start_time = Datetime 63844884000000000,
               end_time = Datetime 63846698400000000, description = []\<rparr>"




section \<open>Unfolding rules for evaluating the model on concrete input\<close>

lemmas rx_eval = match_here_def less_one_def is_digit_def decimal_def is_space_def ch_def rng_def
  lit_def group_def asc_def
lemmas pattern_defs = STRPTIME_RE_def AGENTS_PATTERN_def STAMP_def TIME_PATTERN_def
  VERSION_PATTERN_def AFTER_UPDATE_def ENGINE_def AGENT_def DELIM_def
lemmas datetime_eval = strptime_def py_int_def strip_def mk_datetime_def days_in_month_def
  ymd2ord_def days_before_year_def days_before_month_def is_leap_def day_micros_def

section \<open>Facts about the string operations\<close>

lemma starts_with_iff: "starts_with n h \<longleftrightarrow> (\<exists>s. h = n @ s)"
  by (induction n h rule: starts_with.induct) auto

lemma contains_iff: "contains n h \<longleftrightarrow> (\<exists>p s. h = p @ n @ s)"
proof (induction h)
  case Nil
  then show ?case by auto
next
  case (Cons y ys)
  show ?case
  proof
    assume "contains n (y # ys)"
    then consider "starts_with n (y # ys)" | "contains n ys" by auto
    then show "\<exists>p s. y # ys = p @ n @ s"
    proof cases
      case 1
      then obtain s where "y # ys = n @ s" by (auto simp: starts_with_iff)
      then have "y # ys = [] @ n @ s" by simp
      then show ?thesis by blast
    next
      case 2
      then obtain p s where "ys = p @ n @ s" using Cons.IH by blast
      then have "y # ys = (y # p) @ n @ s" by simp
      then show ?thesis by blast
    qed
  next
    assume "\<exists>p s. y # ys = p @ n @ s"
    then obtain p s where ps: "y # ys = p @ n @ s" by blast
    show "contains n (y # ys)"
    proof (cases p)
      case Nil
      with ps have "starts_with n (y # ys)" by (auto simp: starts_with_iff)
      then show ?thesis by simp
    next
      case (Cons a p')
      with ps have "ys = p' @ n @ s" by simp
      then have "contains n ys" using Cons.IH by blast
      then show ?thesis by simp
    qed
  qed
qed

section \<open>Every match of the bracket pattern consumes input\<close>

lemma mts_length: "mts rs s c = Some (c', s') \<Longrightarrow> length s' \<le> length s"
proof (induction rs s c arbitrary: c' s' rule: mts.induct)
  case (1 s c)
  then show ?case by simp
next
  case (2 i s0 rs s c)
  from "2.prems" have "mts rs s ((i, take (length s0 - length s) s0) # c) = Some (c', s')"
    by (simp only: mts.simps)
  then show ?case by (rule "2.IH")
next
  case (3 rs s c)
  then show ?case by simp
next
  case (4 a rs s c)
  from "4.prems" obtain x xs where s: "s = x # xs" and m: "member_cls a x"
    and r: "mts rs xs c = Some (c', s')"
    by (cases s) (auto split: if_splits)
  have "length s' \<le> length xs" using "4.IH" [OF s m r] .
  then show ?case using s by simp
next
  case (5 p q rs s c)
  then show ?case by simp
next
  case (6 p q rs s c)
  then show ?case by (auto split: option.splits)
next
  case (7 i p rs s c)
  then show ?case by simp
next
  case (8 a lo hi greedy rs s c)
  note prem = "8.prems" [unfolded mts.simps(8) [of a lo hi greedy rs s c]]
  show ?case
  proof (cases "0 < lo")
    case True
    with prem obtain x xs where s: "s = x # xs" and m: "member_cls a x"
      and r: "mts (Match (Rep a (lo - 1) (less_one hi) greedy) # rs) xs c = Some (c', s')"
      by (cases s) (auto simp del: mts.simps split: if_splits)
    have "length s' \<le> length xs" using "8.IH"(1) [OF True s m r] .
    then show ?thesis using s by simp
  next
    case lo: False
    show ?thesis
    proof (cases "hi = Some 0")
      case True
      with lo prem have "mts rs s c = Some (c', s')" by (simp del: mts.simps)
      then show ?thesis using "8.IH"(2) [OF lo True] by blast
    next
      case hi: False
      show ?thesis
      proof (cases s)
        case Nil
        with lo hi prem have "mts rs s c = Some (c', s')" by (simp del: mts.simps)
        then show ?thesis using "8.IH"(3) [OF lo hi Nil] by blast
      next
        case (Cons x xs)
        show ?thesis
        proof (cases "member_cls a x")
          case False
          with lo hi Cons prem have "mts rs s c = Some (c', s')" by (simp del: mts.simps)
          then show ?thesis using "8.IH"(4) [OF lo hi Cons False] by blast
        next
          case True
          then have nn: "\<not> \<not> member_cls a x" by simp
          show ?thesis
          proof (cases greedy)
            case g: True
            show ?thesis
            proof (cases "mts (Match (Rep a 0 (less_one hi) greedy) # rs) xs c")
              case None
              with lo hi Cons True g prem have "mts rs s c = Some (c', s')"
                by (simp del: mts.simps)
              then show ?thesis using "8.IH"(6) [OF lo hi Cons nn g None] by blast
            next
              case (Some r)
              with lo hi Cons True g prem
              have "mts (Match (Rep a 0 (less_one hi) greedy) # rs) xs c = Some (c', s')"
                by (simp del: mts.simps)
              then have "length s' \<le> length xs" using "8.IH"(5) [OF lo hi Cons nn g] by blast
              then show ?thesis using Cons by simp
            qed
          next
            case g: False
            show ?thesis
            proof (cases "mts rs s c")
              case None
              with lo hi Cons True g prem
              have "mts (Match (Rep a 0 (less_one hi) greedy) # rs) xs c = Some (c', s')"
                by (simp del: mts.simps)
              then have "length s' \<le> length xs"
                using "8.IH"(8) [OF lo hi Cons nn g None] by blast
              then show ?thesis using Cons by simp
            next
              case (Some r)
              with lo hi Cons True g prem have "mts rs s c = Some (c', s')"
                by (simp del: mts.simps)
              then show ?thesis using "8.IH"(7) [OF lo hi Cons nn g] by blast
            qed
          qed
        qed
      qed
    qed
  qed
qed

lemma match_here_AGENTS_consumes:
  assumes "match_here AGENTS_PATTERN s = Some m"
  shows "length (after m) < length s"
proof -
  obtain c' s' where r: "mts [Match AGENTS_PATTERN] s [] = Some (c', s')" and m: "after m = s'"
    using assms by (auto simp: match_here_def split: option.splits)
  from r obtain x xs rs where s: "s = x # xs" and "mts rs xs [] = Some (c', s')"
    by (cases s) (auto simp: AGENTS_PATTERN_def ch_def simp del: mts.simps(8) split: if_splits)
  then have "length s' \<le> length xs" using mts_length by blast
  then show ?thesis using m s by simp
qed

lemma search_AGENTS_consumes:
  "re_search AGENTS_PATTERN s = Some m \<Longrightarrow> length (after m) < length s"
proof (induction s)
  case Nil
  then show ?case using match_here_AGENTS_consumes [of "[]" m] by simp
next
  case (Cons x xs)
  show ?case
  proof (cases "match_here AGENTS_PATTERN (x # xs)")
    case None
    with Cons.prems have "re_search AGENTS_PATTERN xs = Some m" by simp
    then have "length (after m) < length xs" by (rule Cons.IH)
    then show ?thesis by simp
  next
    case (Some m')
    with Cons.prems have "m' = m" by simp
    with Some have "match_here AGENTS_PATTERN (x # xs) = Some m" by simp
    then show ?thesis by (rule match_here_AGENTS_consumes)
  qed
qed

lemma finditer_AGENTS:
  "re_finditer AGENTS_PATTERN s =
     (case re_search AGENTS_PATTERN s of
        None \<Rightarrow> []
      | Some m \<Rightarrow> m # re_finditer AGENTS_PATTERN (after m))"
  by (subst re_finditer.simps) (auto split: option.splits dest: search_AGENTS_consumes)

section \<open>The validation gate\<close>

text \<open>
  C4. The gate runs before any extraction. A post whose body contains the engine keyword
  gives no event, whatever else it contains, and so does a post whose body lacks the
  agent keyword; in both cases the state is untouched, so no version lookup and no
  cache write took place.
\<close>

theorem gate_rejects:
  "(body = pre @ ENGINE @ post \<longrightarrow> parse_post_content e w post_title body = (None, w)) \<and>
   ((\<forall>pre post. body \<noteq> pre @ AGENT @ post) \<longrightarrow>
      parse_post_content e w post_title body = (None, w))"
proof -
  have "contains ENGINE body" if "body = pre @ ENGINE @ post"
    using that contains_iff [of ENGINE body] by blast
  moreover have "\<not> contains AGENT body" if "\<forall>pre post. body \<noteq> pre @ AGENT @ post"
    using that contains_iff [of AGENT body] by blast
  ultimately show ?thesis
    by (auto simp: parse_post_content_def is_valid_post_content_def)
qed

theorem gate_rejects_witness:
  "parse_post_content stub_env fresh_world (asc ''t'')
     (AGENT @ ENGINE @ asc '' 1.5'' @ AFTER_UPDATE @ asc '' ~ 2024/4/1 10:00:00'') =
     (None, fresh_world) \<and>
   (\<forall>pre post. asc ''2024/3/1 10:00:00 ~ 2024/3/22 10:00:00'' \<noteq> pre @ AGENT @ post) \<and>
   parse_post_content stub_env fresh_world (asc ''t'')
     (asc ''2024/3/1 10:00:00 ~ 2024/3/22 10:00:00'') = (None, fresh_world)"
proof -
  have "\<not> contains AGENT (asc ''2024/3/1 10:00:00 ~ 2024/3/22 10:00:00'')"
    by (simp add: pattern_defs asc_def)
  then have absent: "\<forall>pre post. asc ''2024/3/1 10:00:00 ~ 2024/3/22 10:00:00'' \<noteq> pre @ AGENT @ post"
    using contains_iff [of AGENT "asc ''2024/3/1 10:00:00 ~ 2024/3/22 10:00:00''"] by blast
  show ?thesis
    using gate_rejects [of "AGENT @ ENGINE @ asc '' 1.5'' @ AFTER_UPDATE @ asc '' ~ 2024/4/1 10:00:00''"
            AGENT "asc '' 1.5'' @ AFTER_UPDATE @ asc '' ~ 2024/4/1 10:00:00''"
            stub_env fresh_world "asc ''t''"]
          gate_rejects [of "asc ''2024/3/1 10:00:00 ~ 2024/3/22 10:00:00''" _ _
            stub_env fresh_world "asc ''t''"]
          absent
    by simp
qed

section \<open>The model on the example bodies\<close>

lemmas body_defs = direct_body_def version_body_def both_body_def feb30_body_def
  reversed_body_def instant_body_def

lemma strptime_mar1: "strptime (asc ''2024/3/1 10:00:00'') = Inr (Datetime 63844884000000000)"
  by (simp add: rx_eval pattern_defs datetime_eval)

lemma strptime_mar22: "strptime (asc ''2024/3/22 10:00:00'') = Inr (Datetime 63846698400000000)"
  by (simp add: rx_eval pattern_defs datetime_eval)

lemma strptime_apr1: "strptime (asc ''2024/4/1 10:00:00'') = Inr (Datetime 63847562400000000)"
  by (simp add: rx_eval pattern_defs datetime_eval)

lemma strptime_feb30: "strptime (asc ''2024/2/30 10:00:00'') = Inl ValueError"
  by (simp add: rx_eval pattern_defs datetime_eval)

lemma search_time_direct:
  "re_search TIME_PATTERN direct_body =
     Some \<lparr>groups = [(2, asc ''2024/3/22 10:00:00''), (1, asc ''2024/3/1 10:00:00'')], after = []\<rparr>"
  by (simp add: body_defs rx_eval pattern_defs)

lemma search_time_both:
  "re_search TIME_PATTERN both_body =
     Some \<lparr>groups = [(2, asc ''2024/3/22 10:00:00''), (1, asc ''2024/3/1 10:00:00'')],
           after = asc '' '' @ version_body\<rparr>"
  by (simp add: body_defs rx_eval pattern_defs)

lemma search_version_both:
  "re_search VERSION_PATTERN both_body =
     Some \<lparr>groups = [(2, asc ''2024/4/1 10:00:00''), (1, asc ''1.5'')], after = []\<rparr>"
  by (simp add: body_defs rx_eval pattern_defs)

lemma search_time_version: "re_search TIME_PATTERN version_body = None"
  by (simp add: body_defs rx_eval pattern_defs)

lemma search_version_version:
  "re_search VERSION_PATTERN version_body =
     Some \<lparr>groups = [(2, asc ''2024/4/1 10:00:00''), (1, asc ''1.5'')], after = []\<rparr>"
  by (simp add: body_defs rx_eval pattern_defs)

lemma search_time_feb30:
  "re_search TIME_PATTERN feb30_body =
     Some \<lparr>groups = [(2, asc ''2024/3/22 10:00:00''), (1, asc ''2024/2/30 10:00:00'')], after = []\<rparr>"
  by (simp add: body_defs rx_eval pattern_defs)

lemma search_time_reversed:
  "re_search TIME_PATTERN reversed_body =
     Some \<lparr>groups = [(2, asc ''2024/3/1 10:00:00''), (1, asc ''2024/3/22 10:00:00'')], after = []\<rparr>"
  by (simp add: body_defs rx_eval pattern_defs)

lemma search_time_instant:
  "re_search TIME_PATTERN instant_body =
     Some \<lparr>groups = [(2, asc ''2024/3/1 10:00:00''), (1, asc ''2024/3/1 10:00:00'')], after = []\<rparr>"
  by (simp add: body_defs rx_eval pattern_defs)

lemma search_none: "re_search TIME_PATTERN AGENT = None \<and> re_search VERSION_PATTERN AGENT = None"
  by (simp add: rx_eval pattern_defs)

lemma resolve_cached: "get_version_start_time stub_env cached_world (asc ''1.5'') = (Some release_1_5, cached_world)"
  by (simp add: get_version_start_time_def load_version_data_def cached_world_def stub_env_def asc_def)

section \<open>The order of the two time encodings\<close>

text \<open>
  C5. Time extraction tries the direct-window pattern first and the version-relative
  pattern second, and the first pattern that matches decides: when the direct pattern
  matches, the result is the one of the direct window, whatever else the body holds (a
  version-relative window included) and without touching the state; the version pattern
  is consulted only when the direct one does not match; when neither matches the result
  is \<open>None\<close>.
\<close>

theorem extraction_order:
  "(re_search TIME_PATTERN body = Some tm \<longrightarrow>
      extract_event_time e w body =
        (case parse_direct_time tm of
           Inl err \<Rightarrow> (Inl err, w)
         | Inr window \<Rightarrow> (Inr (Some window), w))) \<and>
   (re_search TIME_PATTERN body = None \<longrightarrow> re_search VERSION_PATTERN body = Some vm \<longrightarrow>
      extract_event_time e w body = parse_version_time e w vm) \<and>
   (re_search TIME_PATTERN body = None \<longrightarrow> re_search VERSION_PATTERN body = None \<longrightarrow>
      extract_event_time e w body = (Inr None, w))"
  by (simp add: extract_event_time_def)

theorem extraction_order_witness:
  "re_search TIME_PATTERN both_body =
     Some \<lparr>groups = [(2, asc ''2024/3/22 10:00:00''), (1, asc ''2024/3/1 10:00:00'')],
           after = asc '' '' @ version_body\<rparr> \<and>
   re_search VERSION_PATTERN both_body =
     Some \<lparr>groups = [(2, asc ''2024/4/1 10:00:00''), (1, asc ''1.5'')], after = []\<rparr> \<and>
   extract_event_time stub_env cached_world both_body =
     (Inr (Some (Datetime 63844884000000000, Datetime 63846698400000000)), cached_world) \<and>
   re_search TIME_PATTERN version_body = None \<and>
   extract_event_time stub_env cached_world version_body =
     (Inr (Some (release_1_5, Datetime 63847562400000000)), cached_world) \<and>
   re_search TIME_PATTERN AGENT = None \<and> re_search VERSION_PATTERN AGENT = None \<and>
   extract_event_time stub_env cached_world AGENT = (Inr None, cached_world)"
  using extraction_order [of both_body
          "\<lparr>groups = [(2, asc ''2024/3/22 10:00:00''), (1, asc ''2024/3/1 10:00:00'')],
            after = asc '' '' @ version_body\<rparr>" stub_env cached_world]
        extraction_order [of version_body _ stub_env cached_world
          "\<lparr>groups = [(2, asc ''2024/4/1 10:00:00''), (1, asc ''1.5'')], after = []\<rparr>"]
        extraction_order [of AGENT _ stub_env cached_world]
        search_time_both search_version_both search_time_version search_version_version
        search_none strptime_mar1 strptime_mar22 strptime_apr1 resolve_cached
  by (simp add: parse_direct_time_def parse_version_time_def group_def)

section \<open>The direct window\<close>

lemma mk_datetime_error: "mk_datetime y mo d h mi sec us = Inl err \<Longrightarrow> err = ValueError"
  by (simp add: mk_datetime_def split: if_splits)

lemma strptime_error: "strptime s = Inl err \<Longrightarrow> err = ValueError"
  by (auto simp: strptime_def dest: mk_datetime_error split: option.splits if_splits)

lemma pad_2: "pad 2 n = [48 + n div 10 mod 10, 48 + n mod 10]"
proof -
  have two: "2 = Suc (Suc 0)" by simp
  show ?thesis by (subst two) simp
qed

lemma pad_4:
  "pad 4 n = [48 + n div 10 div 10 div 10 mod 10, 48 + n div 10 div 10 mod 10,
              48 + n div 10 mod 10, 48 + n mod 10]"
proof -
  have four: "4 = Suc (Suc (Suc (Suc 0)))" by simp
  show ?thesis by (subst four) simp
qed

lemmas iso_eval = isoformat_def ord2ymd_def asc_def day_micros_def days_before_month_def
  days_in_month_def is_leap_def Let_def pad_2 pad_4

lemma iso_mar1: "isoformat (Datetime 63844884000000000) = asc ''2024-03-01T10:00:00''"
  by (simp add: iso_eval)

lemma iso_mar22: "isoformat (Datetime 63846698400000000) = asc ''2024-03-22T10:00:00''"
  by (simp add: iso_eval)

lemma direct_window_general:
  "re_search TIME_PATTERN body = Some tm \<Longrightarrow> strptime (group tm 1) = Inr start \<Longrightarrow>
   strptime (group tm 2) = Inr end_t \<Longrightarrow>
   extract_event_time e w body = (Inr (Some (start, end_t)), w)"
  by (simp add: extract_event_time_def parse_direct_time_def)

lemma direct_window_invalid:
  assumes "re_search TIME_PATTERN body = Some tm"
    and "strptime (group tm 1) = Inl err \<or> strptime (group tm 2) = Inl err"
  shows "extract_event_time e w body = (Inl ValueError, w)"
proof (cases "strptime (group tm 1)")
  case (Inl a)
  then have "a = ValueError" by (rule strptime_error)
  with Inl assms(1) show ?thesis
    by (simp add: extract_event_time_def parse_direct_time_def)
next
  case (Inr s)
  with assms(2) have e2: "strptime (group tm 2) = Inl err" by simp
  then have "err = ValueError" by (rule strptime_error)
  with Inr e2 assms(1) show ?thesis
    by (simp add: extract_event_time_def parse_direct_time_def)
qed

text \<open>
  C2. The body \<open>2024/3/1 10:00:00 ~ 2024/3/22 10:00:00\<close> extracts to the start
  2024-03-01T10:00:00 and the end 2024-03-22T10:00:00: the datetimes built from the
  fields as written, with no offset. For every body that matches the direct pattern and
  whose two matched sides are dates and times \<open>strptime\<close> accepts, the two parsed sides
  are returned as (start, end), with the state untouched. When \<open>strptime\<close> refuses one
  of the sides (a day the month does not have, an hour 24, a second 60), no pair is
  returned: the extraction raises \<open>ValueError\<close>.
\<close>

theorem direct_window:
  "extract_event_time e w direct_body =
     (Inr (Some (Datetime 63844884000000000, Datetime 63846698400000000)), w) \<and>
   mk_datetime 2024 3 1 10 0 0 0 = Inr (Datetime 63844884000000000) \<and>
   mk_datetime 2024 3 22 10 0 0 0 = Inr (Datetime 63846698400000000) \<and>
   isoformat (Datetime 63844884000000000) = asc ''2024-03-01T10:00:00'' \<and>
   isoformat (Datetime 63846698400000000) = asc ''2024-03-22T10:00:00'' \<and>
   (re_search TIME_PATTERN body = Some tm \<longrightarrow> strptime (group tm 1) = Inr start \<longrightarrow>
      strptime (group tm 2) = Inr end_t \<longrightarrow>
      extract_event_time e w body = (Inr (Some (start, end_t)), w)) \<and>
   (re_search TIME_PATTERN body = Some tm \<longrightarrow>
      strptime (group tm 1) = Inl err \<or> strptime (group tm 2) = Inl err \<longrightarrow>
      extract_event_time e w body = (Inl ValueError, w))"
proof -
  have "extract_event_time e w direct_body =
     (Inr (Some (Datetime 63844884000000000, Datetime 63846698400000000)), w)"
    using search_time_direct strptime_mar1 strptime_mar22
    by (simp add: extract_event_time_def parse_direct_time_def group_def)
  moreover have "mk_datetime 2024 3 1 10 0 0 0 = Inr (Datetime 63844884000000000)"
    by (simp add: datetime_eval)
  moreover have "mk_datetime 2024 3 22 10 0 0 0 = Inr (Datetime 63846698400000000)"
    by (simp add: datetime_eval)
  ultimately show ?thesis
    using iso_mar1 iso_mar22 direct_window_general [of body tm start end_t e w]
      direct_window_invalid [of body tm err e w]
    by blast
qed

theorem direct_window_witness:
  "re_search TIME_PATTERN direct_body =
     Some \<lparr>groups = [(2, asc ''2024/3/22 10:00:00''), (1, asc ''2024/3/1 10:00:00'')], after = []\<rparr> \<and>
   strptime (asc ''2024/3/1 10:00:00'') = Inr (Datetime 63844884000000000) \<and>
   strptime (asc ''2024/3/22 10:00:00'') = Inr (Datetime 63846698400000000) \<and>
   extract_event_time offline_env empty_world direct_body =
     (Inr (Some (Datetime 63844884000000000, Datetime 63846698400000000)), empty_world) \<and>
   re_search TIME_PATTERN feb30_body =
     Some \<lparr>groups = [(2, asc ''2024/3/22 10:00:00''), (1, asc ''2024/2/30 10:00:00'')], after = []\<rparr> \<and>
   strptime (asc ''2024/2/30 10:00:00'') = Inl ValueError \<and>
   extract_event_time offline_env empty_world feb30_body = (Inl ValueError, empty_world)"
  using direct_window [of offline_env empty_world direct_body
          "\<lparr>groups = [(2, asc ''2024/3/22 10:00:00''), (1, asc ''2024/3/1 10:00:00'')], after = []\<rparr>"
          "Datetime 63844884000000000" "Datetime 63846698400000000"]
        direct_window [of offline_env empty_world feb30_body
          "\<lparr>groups = [(2, asc ''2024/3/22 10:00:00''), (1, asc ''2024/2/30 10:00:00'')], after = []\<rparr>"
          _ _ ValueError]
        search_time_direct search_time_feb30 strptime_mar1 strptime_mar22 strptime_feb30
  by (simp add: group_def)

text \<open>
  C2, the claim as first stated fails: the body \<open>2024/2/30 10:00:00 ~ 2024/3/22 10:00:00\<close>
  matches the direct pattern, and its two sides are not returned; the extraction raises
  and the post gives no event.
\<close>

theorem direct_window_counterexample:
  "re_search TIME_PATTERN feb30_body =
     Some \<lparr>groups = [(2, asc ''2024/3/22 10:00:00''), (1, asc ''2024/2/30 10:00:00'')], after = []\<rparr> \<and>
   extract_event_time offline_env empty_world feb30_body = (Inl ValueError, empty_world) \<and>
   fst (parse_post_content offline_env empty_world (asc ''t'') (AGENT @ asc '' '' @ feb30_body)) = None"
proof -
  have s: "re_search TIME_PATTERN (AGENT @ asc '' '' @ feb30_body) =
     Some \<lparr>groups = [(2, asc ''2024/3/22 10:00:00''), (1, asc ''2024/2/30 10:00:00'')], after = []\<rparr>"
    by (simp add: body_defs rx_eval pattern_defs)
  have "extract_event_time offline_env empty_world (AGENT @ asc '' '' @ feb30_body) =
      (Inl ValueError, empty_world)"
    using s strptime_feb30 by (simp add: extract_event_time_def parse_direct_time_def group_def)
  then have "fst (parse_post_content offline_env empty_world (asc ''t'') (AGENT @ asc '' '' @ feb30_body)) = None"
    by (simp add: parse_post_content_def Let_def split: if_splits)
  moreover have "extract_event_time offline_env empty_world feb30_body = (Inl ValueError, empty_world)"
    using search_time_feb30 strptime_feb30
    by (simp add: extract_event_time_def parse_direct_time_def group_def)
  ultimately show ?thesis using search_time_feb30 by simp
qed

section \<open>No check of the order of start and end\<close>

lemma no_agents_reversed: "extract_agents_title reversed_body = None"
  by (simp add: extract_agents_title_def re_finditer.simps body_defs rx_eval pattern_defs)

lemma no_agents_instant: "extract_agents_title instant_body = None"
  by (simp add: extract_agents_title_def re_finditer.simps body_defs rx_eval pattern_defs)

lemma valid_reversed: "is_valid_post_content t reversed_body \<and> reversed_body \<noteq> []"
  by (simp add: is_valid_post_content_def body_defs pattern_defs asc_def)

lemma valid_instant: "is_valid_post_content t instant_body \<and> instant_body \<noteq> []"
  by (simp add: is_valid_post_content_def body_defs pattern_defs asc_def)

text \<open>
  C1. Extraction does not compare start and end. A post yields an event exactly when its
  body is not empty, passes the gate, and time extraction returns a pair; the event
  carries that pair as parsed, whether or not the start lies before the end, and is
  stored. Only a post without a resolvable time is discarded.
\<close>

theorem event_carries_parsed_window:
  "parse_post_content e w post_title body = (Some ev, w') \<longleftrightarrow>
     body \<noteq> [] \<and> is_valid_post_content post_title body \<and>
     extract_event_time e w body = (Inr (Some (start_time ev, end_time ev)), w') \<and>
     title ev = (case extract_agents_title body of
                   None \<Rightarrow> post_title
                 | Some t \<Rightarrow> if t = [] then post_title else t) \<and>
     description ev = []"
proof (cases "body \<noteq> [] \<and> is_valid_post_content post_title body")
  case False
  then show ?thesis by (auto simp: parse_post_content_def)
next
  case True
  obtain r w1 where x: "extract_event_time e w body = (r, w1)" by (cases "extract_event_time e w body")
  show ?thesis
  proof (cases r)
    case (Inl err)
    with True x show ?thesis by (simp add: parse_post_content_def Let_def)
  next
    case (Inr opt)
    show ?thesis
    proof (cases opt)
      case None
      with True x Inr show ?thesis by (simp add: parse_post_content_def Let_def)
    next
      case (Some p)
      obtain s en where p: "p = (s, en)" by (cases p)
      with True x Inr Some show ?thesis
        by (cases ev) (auto simp: parse_post_content_def Let_def)
    qed
  qed
qed

theorem event_carries_parsed_window_witness:
  "parse_post_content offline_env empty_world (asc ''t'') instant_body =
     (Some \<lparr>title = asc ''t'', start_time = Datetime 63844884000000000,
            end_time = Datetime 63844884000000000, description = []\<rparr>, empty_world) \<and>
   \<not> dt_less (Datetime 63844884000000000) (Datetime 63844884000000000)"
proof -
  have "extract_event_time offline_env empty_world instant_body =
      (Inr (Some (Datetime 63844884000000000, Datetime 63844884000000000)), empty_world)"
    using search_time_instant strptime_mar1
    by (simp add: extract_event_time_def parse_direct_time_def group_def)
  then show ?thesis
    using event_carries_parsed_window [of offline_env empty_world "asc ''t''" instant_body
        "\<lparr>title = asc ''t'', start_time = Datetime 63844884000000000,
          end_time = Datetime 63844884000000000, description = []\<rparr>" empty_world]
      no_agents_instant valid_instant [of "asc ''t''"]
    by (simp add: dt_less_def)
qed

text \<open>
  C1, the claim as first stated fails: the window \<open>2024/3/22 10:00:00 ~ 2024/3/1 10:00:00\<close>
  gives an event whose start is later than its end.
\<close>

theorem start_before_end_counterexample:
  "parse_post_content offline_env empty_world (asc ''t'') reversed_body =
     (Some \<lparr>title = asc ''t'', start_time = Datetime 63846698400000000,
            end_time = Datetime 63844884000000000, description = []\<rparr>, empty_world) \<and>
   \<not> dt_less (Datetime 63846698400000000) (Datetime 63844884000000000)"
proof -
  have "extract_event_time offline_env empty_world reversed_body =
      (Inr (Some (Datetime 63846698400000000, Datetime 63844884000000000)), empty_world)"
    using search_time_reversed strptime_mar1 strptime_mar22
    by (simp add: extract_event_time_def parse_direct_time_def group_def)
  then show ?thesis
    using no_agents_reversed valid_reversed [of "asc ''t''"]
    by (simp add: parse_post_content_def dt_less_def)
qed

section \<open>The version-relative window\<close>

lemma resolve_offline: "get_version_start_time offline_env empty_world v = (None, empty_world\<lparr>lookups := [v]\<rparr>)"
  by (simp add: get_version_start_time_def load_version_data_def empty_world_def offline_env_def
      fetch_version_start_time_def)

lemma search_version_feb30:
  "re_search TIME_PATTERN version_feb30_body = None \<and>
   re_search VERSION_PATTERN version_feb30_body =
     Some \<lparr>groups = [(2, asc ''2024/2/30 10:00:00''), (1, asc ''1.5'')], after = []\<rparr>"
  by (simp add: version_feb30_body_def rx_eval pattern_defs)

text \<open>
  C3. For every body that the direct pattern does not match and the version-relative
  pattern matches, with an end \<open>strptime\<close> accepts: when the resolver returns a
  timestamp \<open>t\<close> for the version label, extraction returns (\<open>t\<close>, parsed end);
  when the resolver returns \<open>None\<close> (it catches its own exceptions), extraction
  returns \<open>None\<close> and the post gives no event. An end \<open>strptime\<close> refuses raises
  \<open>ValueError\<close> before the resolver is asked, and the post gives no event either.
\<close>

theorem version_window:
  assumes "re_search TIME_PATTERN body = None"
    and "re_search VERSION_PATTERN body = Some vm"
  shows "(strptime (group vm 2) = Inr end_t \<longrightarrow>
            get_version_start_time e w (group vm 1) = (Some t, w') \<longrightarrow>
            extract_event_time e w body = (Inr (Some (t, end_t)), w')) \<and>
         (strptime (group vm 2) = Inr end_t \<longrightarrow>
            get_version_start_time e w (group vm 1) = (None, w') \<longrightarrow>
            extract_event_time e w body = (Inr None, w') \<and>
            fst (parse_post_content e w post_title body) = None) \<and>
         (strptime (group vm 2) = Inl err \<longrightarrow>
            extract_event_time e w body = (Inl ValueError, w) \<and>
            fst (parse_post_content e w post_title body) = None)"
proof -
  have x: "extract_event_time e w body = parse_version_time e w vm"
    using assms by (simp add: extract_event_time_def)
  have a: "extract_event_time e w body = (Inr (Some (t, end_t)), w')"
    if "strptime (group vm 2) = Inr end_t" "get_version_start_time e w (group vm 1) = (Some t, w')"
    using that x by (simp add: parse_version_time_def)
  have b: "extract_event_time e w body = (Inr None, w')"
    if "strptime (group vm 2) = Inr end_t" "get_version_start_time e w (group vm 1) = (None, w')"
    using that x by (simp add: parse_version_time_def)
  have c: "extract_event_time e w body = (Inl ValueError, w)" if "strptime (group vm 2) = Inl err"
  proof -
    from that have "err = ValueError" by (rule strptime_error)
    with that x show ?thesis by (simp add: parse_version_time_def)
  qed
  have d: "fst (parse_post_content e w post_title body) = None"
    if "extract_event_time e w body = (Inr None, w1)" for w1
    using that by (simp add: parse_post_content_def Let_def)
  have d': "fst (parse_post_content e w post_title body) = None"
    if "extract_event_time e w body = (Inl ValueError, w1)" for w1
    using that by (simp add: parse_post_content_def Let_def)
  show ?thesis using a b c d d' by blast
qed

theorem version_window_witness:
  "re_search TIME_PATTERN version_body = None \<and>
   re_search VERSION_PATTERN version_body =
     Some \<lparr>groups = [(2, asc ''2024/4/1 10:00:00''), (1, asc ''1.5'')], after = []\<rparr> \<and>
   strptime (asc ''2024/4/1 10:00:00'') = Inr (Datetime 63847562400000000) \<and>
   get_version_start_time stub_env cached_world (asc ''1.5'') = (Some release_1_5, cached_world) \<and>
   extract_event_time stub_env cached_world version_body =
     (Inr (Some (release_1_5, Datetime 63847562400000000)), cached_world) \<and>
   get_version_start_time offline_env empty_world (asc ''1.5'') =
     (None, empty_world\<lparr>lookups := [asc ''1.5'']\<rparr>) \<and>
   extract_event_time offline_env empty_world version_body =
     (Inr None, empty_world\<lparr>lookups := [asc ''1.5'']\<rparr>) \<and>
   fst (parse_post_content offline_env empty_world (asc ''t'') version_body) = None \<and>
   strptime (asc ''2024/2/30 10:00:00'') = Inl ValueError \<and>
   extract_event_time stub_env cached_world version_feb30_body = (Inl ValueError, cached_world)"
  using version_window [OF search_time_version search_version_version,
          of "Datetime 63847562400000000" stub_env cached_world release_1_5 cached_world]
        version_window [OF search_time_version search_version_version,
          of "Datetime 63847562400000000" offline_env empty_world _
             "empty_world\<lparr>lookups := [asc ''1.5'']\<rparr>" "asc ''t''"]
        version_window [OF conjunct1 [OF search_version_feb30] conjunct2 [OF search_version_feb30],
          of _ stub_env cached_world _ _ _ ValueError]
        search_time_version search_version_version strptime_apr1 resolve_cached
        resolve_offline [of "asc ''1.5''"] strptime_feb30
  by (simp add: group_def)

text \<open>
  C3, the claim as first stated fails: a body that matches the version-relative pattern
  and the direct pattern as well. The resolver would return the release time of version
  1.5, and extraction returns the direct window, not (release, parsed end).
\<close>

theorem version_window_counterexample:
  "re_search VERSION_PATTERN both_body =
     Some \<lparr>groups = [(2, asc ''2024/4/1 10:00:00''), (1, asc ''1.5'')], after = []\<rparr> \<and>
   strptime (asc ''2024/4/1 10:00:00'') = Inr (Datetime 63847562400000000) \<and>
   get_version_start_time stub_env cached_world (asc ''1.5'') = (Some release_1_5, cached_world) \<and>
   extract_event_time stub_env cached_world both_body =
     (Inr (Some (Datetime 63844884000000000, Datetime 63846698400000000)), cached_world) \<and>
   extract_event_time stub_env cached_world both_body \<noteq>
     (Inr (Some (release_1_5, Datetime 63847562400000000)), cached_world)"
proof -
  have "extract_event_time stub_env cached_world both_body =
     (Inr (Some (Datetime 63844884000000000, Datetime 63846698400000000)), cached_world)"
    using search_time_both strptime_mar1 strptime_mar22
    by (simp add: extract_event_time_def parse_direct_time_def group_def)
  then show ?thesis
    using search_version_both strptime_apr1 resolve_cached by (simp add: release_1_5_def)
qed

section \<open>The title derived from the agent brackets\<close>

lemma removeAll_filter_swap: "removeAll x (filter P xs) = filter (\<lambda>y. P y \<and> y \<noteq> x) xs"
  by (induction xs) auto

lemma fromkeys_into_first_seen:
  "fromkeys_into keys xs = keys @ first_seen (filter (\<lambda>x. x \<notin> set keys) xs)"
proof (induction xs arbitrary: keys)
  case Nil
  then show ?case by simp
next
  case (Cons x xs)
  show ?case
  proof (cases "x \<in> set keys")
    case True
    then show ?thesis using Cons.IH [of keys] by simp
  next
    case False
    have "(\<lambda>y. y \<notin> set (keys @ [x])) = (\<lambda>y. y \<notin> set keys \<and> y \<noteq> x)" by auto
    then show ?thesis
      using False Cons.IH [of "keys @ [x]"] by (simp add: removeAll_filter_swap)
  qed
qed

lemma fromkeys_first_seen: "fromkeys xs = first_seen xs"
  by (simp add: fromkeys_def fromkeys_into_first_seen)

lemma set_first_seen: "set (first_seen xs) = set xs"
  by (induction xs rule: first_seen.induct) auto

lemma distinct_first_seen: "distinct (first_seen xs)"
  by (induction xs rule: first_seen.induct) (auto simp: set_first_seen)

lemma join_nonempty: "x \<noteq> [] \<Longrightarrow> join sep (x # xs) \<noteq> []"
  by (cases xs) auto

lemma derived_title_nonempty:
  assumes "ms \<noteq> []"
  shows "join [DELIM] (fromkeys (map agent_label ms)) \<noteq> []"
proof -
  obtain m rest where ms: "ms = m # rest" using assms by (cases ms) auto
  have "agent_label m \<noteq> []" by (simp add: agent_label_def asc_def)
  then show ?thesis by (simp add: ms fromkeys_first_seen join_nonempty)
qed

lemma title_of_event:
  "parse_post_content e w post_title body = (Some ev, w') \<Longrightarrow>
   title ev = (case extract_agents_title body of
                 None \<Rightarrow> post_title
               | Some t \<Rightarrow> if t = [] then post_title else t)"
  by (cases ev)
     (auto simp: parse_post_content_def Let_def split: if_splits prod.splits sum.splits option.splits)

lemma finditer_brackets:
  "map agent_label (re_finditer AGENTS_PATTERN (asc ''[A(B)][C(D)][A(B)]'')) =
     [asc ''A(B)'', asc ''C(D)'', asc ''A(B)'']"
  by (simp add: re_finditer.simps agent_label_def rx_eval pattern_defs)

lemma agent_label_explicit: "agent_label = (\<lambda>m. group m 1 @ [40] @ group m 2 @ [41])"
  by (rule ext) (simp add: agent_label_def asc_def)

text \<open>
  C6. When the body has one or more matches of the bracket pattern, the derived title is
  the list of the labels of the matches (the name, an opening parenthesis, the
  qualifier, a closing parenthesis), deduplicated by equality of the strings in the
  order of first appearance and joined with the delimiter, the code point 12289
  (U+3001), and the event carries it in place of the title of the post. When the body
  has no match, the event keeps the title of the post. The body
  \<open>[A(B)][C(D)][A(B)]\<close> gives \<open>A(B)\<close>, the code point 12289, \<open>C(D)\<close>.
\<close>

theorem agents_title:
  "(re_finditer AGENTS_PATTERN body \<noteq> [] \<longrightarrow>
      extract_agents_title body =
        Some (join [12289]
               (first_seen (map (\<lambda>m. group m 1 @ [40] @ group m 2 @ [41])
                                (re_finditer AGENTS_PATTERN body)))) \<and>
      (parse_post_content e w post_title body = (Some ev, w') \<longrightarrow>
         title ev =
           join [12289]
             (first_seen (map (\<lambda>m. group m 1 @ [40] @ group m 2 @ [41])
                              (re_finditer AGENTS_PATTERN body))))) \<and>
   (re_finditer AGENTS_PATTERN body = [] \<longrightarrow>
      extract_agents_title body = None \<and>
      (parse_post_content e w post_title body = (Some ev, w') \<longrightarrow> title ev = post_title)) \<and>
   distinct (first_seen labels) \<and> set (first_seen labels) = set labels \<and>
   fromkeys labels = first_seen labels \<and>
   extract_agents_title (asc ''[A(B)][C(D)][A(B)]'') = Some (asc ''A(B)'' @ [12289] @ asc ''C(D)'') \<and>
   extract_agents_title [91, 65, 40, 66, 41, 93, 91, 67, 40, 68, 41, 93, 91, 65, 40, 66, 41, 93] =
     Some [65, 40, 66, 41, 12289, 67, 40, 68, 41]"
proof -
  let ?ms = "re_finditer AGENTS_PATTERN body"
  let ?t = "join [12289] (first_seen (map (\<lambda>m. group m 1 @ [40] @ group m 2 @ [41]) ?ms))"
  have t: "join [DELIM] (fromkeys (map agent_label ?ms)) = ?t"
    by (simp add: DELIM_def fromkeys_first_seen agent_label_explicit)
  have a: "extract_agents_title body = Some ?t" if "?ms \<noteq> []"
    using that t by (simp add: extract_agents_title_def)
  have b: "title ev = ?t"
    if "?ms \<noteq> []" "parse_post_content e w post_title body = (Some ev, w')"
  proof -
    have "?t \<noteq> []" using derived_title_nonempty [OF that(1)] t by simp
    then show ?thesis using title_of_event [OF that(2)] a [OF that(1)] by simp
  qed
  have c: "extract_agents_title body = None" if "?ms = []"
    using that by (simp add: extract_agents_title_def)
  have d: "title ev = post_title"
    if "?ms = []" "parse_post_content e w post_title body = (Some ev, w')"
    using title_of_event [OF that(2)] c [OF that(1)] by simp
  have e: "extract_agents_title (asc ''[A(B)][C(D)][A(B)]'') =
      Some (asc ''A(B)'' @ [12289] @ asc ''C(D)'')"
  proof -
    have "re_finditer AGENTS_PATTERN (asc ''[A(B)][C(D)][A(B)]'') \<noteq> []"
      using finditer_brackets by auto
    then show ?thesis
      using finditer_brackets
      by (simp add: extract_agents_title_def fromkeys_first_seen asc_def DELIM_def)
  qed
  have f: "extract_agents_title
      [91, 65, 40, 66, 41, 93, 91, 67, 40, 68, 41, 93, 91, 65, 40, 66, 41, 93] =
      Some [65, 40, 66, 41, 12289, 67, 40, 68, 41]"
    using e by (simp add: asc_def)
  show ?thesis
    using a b c d e f distinct_first_seen [of labels] set_first_seen [of labels]
      fromkeys_first_seen [of labels]
    by blast
qed

lemma finditer_bracket_body:
  "map agent_label (re_finditer AGENTS_PATTERN bracket_body) = [asc ''A(B)'', asc ''C(D)'', asc ''A(B)'']"
  by (simp add: bracket_body_def re_finditer.simps agent_label_def rx_eval pattern_defs)

lemma search_time_bracket_body:
  "re_search TIME_PATTERN bracket_body =
     Some \<lparr>groups = [(2, asc ''2024/3/22 10:00:00''), (1, asc ''2024/3/1 10:00:00'')], after = []\<rparr>"
  by (simp add: bracket_body_def rx_eval pattern_defs)

lemma valid_bracket_body: "is_valid_post_content t bracket_body \<and> bracket_body \<noteq> []"
  by (simp add: is_valid_post_content_def bracket_body_def pattern_defs asc_def)

lemma valid_direct_agent: "is_valid_post_content t (AGENT @ direct_body) \<and> AGENT @ direct_body \<noteq> []"
  by (simp add: is_valid_post_content_def body_defs pattern_defs asc_def)

lemma finditer_direct_agent: "re_finditer AGENTS_PATTERN (AGENT @ direct_body) = []"
  by (simp add: re_finditer.simps body_defs rx_eval pattern_defs)

lemma search_time_direct_agent:
  "re_search TIME_PATTERN (AGENT @ direct_body) =
     Some \<lparr>groups = [(2, asc ''2024/3/22 10:00:00''), (1, asc ''2024/3/1 10:00:00'')], after = []\<rparr>"
  by (simp add: body_defs rx_eval pattern_defs)

theorem agents_title_witness:
  "re_finditer AGENTS_PATTERN bracket_body \<noteq> [] \<and>
   parse_post_content offline_env empty_world (asc ''post title'') bracket_body =
     (Some \<lparr>title = [65, 40, 66, 41, 12289, 67, 40, 68, 41],
            start_time = Datetime 63844884000000000, end_time = Datetime 63846698400000000,
            description = []\<rparr>, empty_world) \<and>
   re_finditer AGENTS_PATTERN (AGENT @ direct_body) = [] \<and>
   parse_post_content offline_env empty_world (asc ''post title'') (AGENT @ direct_body) =
     (Some \<lparr>title = asc ''post title'',
            start_time = Datetime 63844884000000000, end_time = Datetime 63846698400000000,
            description = []\<rparr>, empty_world)"
proof -
  have x1: "extract_event_time offline_env empty_world bracket_body =
      (Inr (Some (Datetime 63844884000000000, Datetime 63846698400000000)), empty_world)"
    using search_time_bracket_body strptime_mar1 strptime_mar22
    by (simp add: extract_event_time_def parse_direct_time_def group_def)
  have x2: "extract_event_time offline_env empty_world (AGENT @ direct_body) =
      (Inr (Some (Datetime 63844884000000000, Datetime 63846698400000000)), empty_world)"
    using search_time_direct_agent strptime_mar1 strptime_mar22
    by (simp add: extract_event_time_def parse_direct_time_def group_def)
  have n1: "re_finditer AGENTS_PATTERN bracket_body \<noteq> []"
    using finditer_bracket_body by auto
  obtain ev1 where p1: "parse_post_content offline_env empty_world (asc ''post title'') bracket_body =
      (Some ev1, empty_world)"
    and f1: "start_time ev1 = Datetime 63844884000000000" "end_time ev1 = Datetime 63846698400000000"
      "description ev1 = []"
    using x1 valid_bracket_body [of "asc ''post title''"] by (simp add: parse_post_content_def Let_def)
  obtain ev2 where p2: "parse_post_content offline_env empty_world (asc ''post title'') (AGENT @ direct_body) =
      (Some ev2, empty_world)"
    and f2: "start_time ev2 = Datetime 63844884000000000" "end_time ev2 = Datetime 63846698400000000"
      "description ev2 = []"
    using x2 valid_direct_agent [of "asc ''post title''"] by (simp add: parse_post_content_def Let_def)
  have t1: "title ev1 = [65, 40, 66, 41, 12289, 67, 40, 68, 41]"
    using agents_title [of bracket_body offline_env empty_world "asc ''post title''" ev1 empty_world
        "[] :: nat list"]
      n1 p1 finditer_bracket_body
    by (simp add: asc_def agent_label_explicit)
  have t2: "title ev2 = asc ''post title''"
    using agents_title [of "AGENT @ direct_body" offline_env empty_world "asc ''post title''" ev2 empty_world
        "[] :: nat list"]
      p2 finditer_direct_agent
    by simp
  have "ev1 = \<lparr>title = [65, 40, 66, 41, 12289, 67, 40, 68, 41],
            start_time = Datetime 63844884000000000, end_time = Datetime 63846698400000000,
            description = []\<rparr>"
    using t1 f1 by (cases ev1) simp
  moreover have "ev2 = \<lparr>title = asc ''post title'',
            start_time = Datetime 63844884000000000, end_time = Datetime 63846698400000000,
            description = []\<rparr>"
    using t2 f2 by (cases ev2) simp
  ultimately show ?thesis using p1 p2 n1 finditer_direct_agent by simp
qed

section \<open>Facts about \<open>split\<close>, \<open>join\<close> and the merged dictionary\<close>

lemma split_nonempty: "split c s \<noteq> []"
  by (induction s) (auto split: list.splits)

lemma join_split: "join [c] (split c s) = s"
proof (induction s)
  case Nil
  then show ?case by simp
next
  case (Cons x xs)
  obtain y ys where sp: "split c xs = y # ys" using split_nonempty [of c xs] by (cases "split c xs") auto
  show ?case
  proof (cases "x = c")
    case True
    then show ?thesis using Cons.IH sp by simp
  next
    case False
    then show ?thesis using Cons.IH sp by (cases ys) auto
  qed
qed

lemma split_no_delim: "x \<in> set (split c s) \<Longrightarrow> c \<notin> set x"
proof (induction s arbitrary: x)
  case Nil
  then show ?case by simp
next
  case (Cons a s)
  obtain y ys where sp: "split c s = y # ys" using split_nonempty [of c s] by (cases "split c s") auto
  show ?case
  proof (cases "a = c")
    case True
    then show ?thesis using Cons by auto
  next
    case False
    then have "x = a # y \<or> x \<in> set ys" using Cons.prems sp by simp
    then show ?thesis using Cons.IH [of x] Cons.IH [of y] sp False by auto
  qed
qed

lemma split_single: "c \<notin> set s \<Longrightarrow> split c s = [s]"
  by (induction s) auto

lemma split_append_delim: "c \<notin> set x \<Longrightarrow> split c (x @ c # s) = x # split c s"
  by (induction x) auto

lemma split_join:
  "xs \<noteq> [] \<Longrightarrow> (\<And>x. x \<in> set xs \<Longrightarrow> c \<notin> set x) \<Longrightarrow> split c (join [c] xs) = xs"
proof (induction xs)
  case Nil
  then show ?case by simp
next
  case (Cons x xs)
  have cx: "c \<notin> set x" using Cons.prems(2) by simp
  show ?case
  proof (cases xs)
    case Nil
    then show ?thesis using cx by (simp add: split_single)
  next
    case (Cons y ys)
    then have "split c (join [c] xs) = xs" using Cons.IH Cons.prems(2) by simp
    then show ?thesis using Cons cx by (simp add: split_append_delim)
  qed
qed

lemma set_fromkeys: "set (fromkeys xs) = set xs"
  by (simp add: fromkeys_first_seen set_first_seen)

lemma fromkeys_nonempty: "xs \<noteq> [] \<Longrightarrow> fromkeys xs \<noteq> []"
  by (cases xs) (simp_all add: fromkeys_first_seen)

lemma segments_merge_titles:
  "set (split DELIM (merge_titles a b)) = set (split DELIM a) \<union> set (split DELIM b)"
proof -
  let ?xs = "fromkeys (split DELIM a @ split DELIM b)"
  have "?xs \<noteq> []" by (rule fromkeys_nonempty) (simp add: split_nonempty)
  moreover have "DELIM \<notin> set x" if "x \<in> set ?xs" for x
    using that split_no_delim [of x DELIM] by (auto simp: set_fromkeys)
  ultimately have "split DELIM (join [DELIM] ?xs) = ?xs" by (rule split_join)
  then show ?thesis by (simp add: merge_titles_def set_fromkeys)
qed

lemma segments_fold_titles:
  "set (split DELIM (foldl merge_titles t ts)) =
     set (split DELIM t) \<union> (\<Union>u \<in> set ts. set (split DELIM u))"
  by (induction ts arbitrary: t) (auto simp: segments_merge_titles)

lemma map_of_retitle:
  "map_of (map (\<lambda>(k', ex). if k' = kk then (k', f ex) else (k', ex)) d) k =
     (if k = kk then map_option f (map_of d k) else map_of d k)"
  by (induction d) auto

lemma map_of_merge_event:
  "map_of (merge_event d ev) k =
     (if k = time_key_of ev
      then (case map_of d k of
              None \<Rightarrow> Some ev
            | Some ex \<Rightarrow> Some (ex\<lparr>title := merge_titles (title ex) (title ev)\<rparr>))
      else map_of d k)"
proof (cases "map_of d (time_key_of ev)")
  case None
  then show ?thesis
    by (auto simp: merge_event_def Let_def map_add_def split: option.splits)
next
  case (Some ex)
  then show ?thesis
    by (simp add: merge_event_def Let_def map_of_retitle)
qed

lemma map_of_fold_merge:
  "map_of (foldl merge_event d es) k =
     (case map_of d k of
        Some ex \<Rightarrow>
          Some (ex\<lparr>title := foldl merge_titles (title ex)
                              (map title (filter (\<lambda>ev. time_key_of ev = k) es))\<rparr>)
      | None \<Rightarrow>
          (case filter (\<lambda>ev. time_key_of ev = k) es of
             [] \<Rightarrow> None
           | f # others \<Rightarrow> Some (f\<lparr>title := foldl merge_titles (title f) (map title others)\<rparr>)))"
proof (induction es arbitrary: d)
  case Nil
  then show ?case by (simp split: option.splits)
next
  case (Cons ev es)
  show ?case
    by (simp add: Cons.IH map_of_merge_event split: option.splits)
qed

lemma map_of_merge_events:
  "map_of (merge_events es) k =
     (case filter (\<lambda>ev. time_key_of ev = k) es of
        [] \<Rightarrow> None
      | f # others \<Rightarrow> Some (f\<lparr>title := foldl merge_titles (title f) (map title others)\<rparr>))"
  by (simp add: merge_events_def map_of_fold_merge)

lemma fst_retitle:
  "fst ` (\<lambda>(k', ex). if k' = kk then (k', f ex) else (k', ex)) ` set d = fst ` set d"
  by (induction d) auto

lemma fst_merge_event: "fst ` set (merge_event d ev) = insert (time_key_of ev) (fst ` set d)"
proof (cases "map_of d (time_key_of ev)")
  case None
  then show ?thesis by (simp add: merge_event_def Let_def)
next
  case (Some ex)
  then have "(time_key_of ev, ex) \<in> set d" by (rule map_of_SomeD)
  then have "time_key_of ev \<in> fst ` set d" by force
  then show ?thesis using Some by (simp add: merge_event_def Let_def fst_retitle insert_absorb)
qed

lemma keys_fold_merge: "fst ` set (foldl merge_event d es) = fst ` set d \<union> time_key_of ` set es"
  by (induction es arbitrary: d) (auto simp: fst_merge_event)

lemma keys_merge_events: "fst ` set (merge_events es) = time_key_of ` set es"
  by (simp add: merge_events_def keys_fold_merge)

lemma segments_merge_events:
  "title_segments (merge_events es) k =
     (\<Union>ev \<in> {ev \<in> set es. time_key_of ev = k}. set (split DELIM (title ev)))"
proof (cases "filter (\<lambda>ev. time_key_of ev = k) es")
  case Nil
  then have "\<forall>ev \<in> set es. time_key_of ev \<noteq> k" by (simp add: filter_empty_conv)
  then have none: "{ev \<in> set es. time_key_of ev = k} = {}" by auto
  show ?thesis unfolding none by (simp add: title_segments_def map_of_merge_events Nil)
next
  case (Cons f others)
  have "{ev \<in> set es. time_key_of ev = k} = set (filter (\<lambda>ev. time_key_of ev = k) es)" by auto
  then have "{ev \<in> set es. time_key_of ev = k} = insert f (set others)" using Cons by simp
  then show ?thesis
    using Cons by (simp add: title_segments_def map_of_merge_events segments_fold_titles)
qed

section \<open>Merging events of the same window\<close>

lemma key_explicit: "time_key_of = (\<lambda>ev. (isoformat (start_time ev), isoformat (end_time ev)))"
  by (rule ext) (simp add: time_key_of_def)

lemma merge_titles_explicit:
  "merge_titles = (\<lambda>a b. join [12289] (first_seen (split 12289 a @ split 12289 b)))"
  by (intro ext) (simp add: merge_titles_def DELIM_def fromkeys_first_seen)

lemma split_merged:
  "split 12289 (join [12289] (first_seen (split 12289 a @ split 12289 b))) =
     first_seen (split 12289 a @ split 12289 b)"
proof (rule split_join)
  show "first_seen (split 12289 a @ split 12289 b) \<noteq> []"
    using split_nonempty [of 12289 a] by (cases "split 12289 a") auto
  show "12289 \<notin> set x" if "x \<in> set (first_seen (split 12289 a @ split 12289 b))" for x
    using that split_no_delim [of x 12289] by (auto simp: set_first_seen)
qed

lemma merge_pair:
  assumes "start_time e1 = start_time e2" and "end_time e1 = end_time e2"
  shows "merge_events [e1, e2] =
           [((isoformat (start_time e1), isoformat (end_time e1)),
             e1\<lparr>title := join [12289]
                              (first_seen (split 12289 (title e1) @ split 12289 (title e2)))\<rparr>)]"
proof -
  have "time_key_of e2 = time_key_of e1" using assms by (simp add: time_key_of_def)
  then show ?thesis
    by (simp add: merge_events_def merge_event_def merge_titles_explicit) (simp add: time_key_of_def)
qed

lemma merged_is_first:
  assumes "map_of (merge_events es) k = Some m"
  shows "\<exists>f others.
           filter (\<lambda>ev. (isoformat (start_time ev), isoformat (end_time ev)) = k) es = f # others \<and>
           m = f\<lparr>title := foldl (\<lambda>t u. join [12289] (first_seen (split 12289 t @ split 12289 u)))
                                (title f) (map title others)\<rparr>"
  using assms
  by (auto simp: map_of_merge_events key_explicit merge_titles_explicit split: list.splits)

text \<open>
  C7. \<open>merge_events\<close> keys every event by the pair of the ISO strings of its start and
  its end, and the keys of the result are the keys of the input. Two events with the
  same start and end give one merged event, the first one with a new title: the
  segments of the two titles (split at the code point 12289, U+3001), in order, without
  the segments already seen, joined with that code point. So no segment is duplicated:
  the titles \<open>A\<close> and \<open>A\<close> give \<open>A\<close>, the titles \<open>A\<close> and \<open>B\<close> give
  \<open>A\<close>, 12289, \<open>B\<close>, and the titles \<open>A\<close>, 12289, \<open>B\<close> and \<open>B\<close>, 12289,
  \<open>C\<close> give \<open>A\<close>, 12289, \<open>B\<close>, 12289, \<open>C\<close>. In every input, the event stored
  under a key is the first input event with that key, changed in its title only: start,
  end and description are the first one's.
\<close>

theorem merge_same_window:
  "(start_time e1 = start_time e2 \<longrightarrow> end_time e1 = end_time e2 \<longrightarrow>
      merge_events [e1, e2] =
        [((isoformat (start_time e1), isoformat (end_time e1)),
          e1\<lparr>title := join [12289]
                           (first_seen (split 12289 (title e1) @ split 12289 (title e2)))\<rparr>)] \<and>
      (title e1 = [65] \<longrightarrow> title e2 = [65] \<longrightarrow>
         merge_events [e1, e2] = [((isoformat (start_time e1), isoformat (end_time e1)), e1)]) \<and>
      (title e1 = [65] \<longrightarrow> title e2 = [66] \<longrightarrow>
         merge_events [e1, e2] =
           [((isoformat (start_time e1), isoformat (end_time e1)),
             e1\<lparr>title := [65, 12289, 66]\<rparr>)]) \<and>
      (title e1 = [65, 12289, 66] \<longrightarrow> title e2 = [66, 12289, 67] \<longrightarrow>
         merge_events [e1, e2] =
           [((isoformat (start_time e1), isoformat (end_time e1)),
             e1\<lparr>title := [65, 12289, 66, 12289, 67]\<rparr>)]) \<and>
      (12289 \<notin> set (title e1) \<longrightarrow> title e2 = title e1 \<longrightarrow>
         merge_events [e1, e2] = [((isoformat (start_time e1), isoformat (end_time e1)), e1)]) \<and>
      (12289 \<notin> set (title e1) \<longrightarrow> 12289 \<notin> set (title e2) \<longrightarrow> title e1 \<noteq> title e2 \<longrightarrow>
         merge_events [e1, e2] =
           [((isoformat (start_time e1), isoformat (end_time e1)),
             e1\<lparr>title := title e1 @ [12289] @ title e2\<rparr>)])) \<and>
   split 12289 (join [12289] (first_seen (split 12289 a @ split 12289 b))) =
     first_seen (split 12289 a @ split 12289 b) \<and>
   distinct (first_seen (split 12289 a @ split 12289 b)) \<and>
   set (first_seen (split 12289 a @ split 12289 b)) = set (split 12289 a) \<union> set (split 12289 b) \<and>
   fst ` set (merge_events es) =
     (\<lambda>ev. (isoformat (start_time ev), isoformat (end_time ev))) ` set es \<and>
   (map_of (merge_events es) k = Some m \<longrightarrow>
      (\<exists>f others.
         filter (\<lambda>ev. (isoformat (start_time ev), isoformat (end_time ev)) = k) es = f # others \<and>
         m = f\<lparr>title := foldl (\<lambda>t u. join [12289] (first_seen (split 12289 t @ split 12289 u)))
                              (title f) (map title others)\<rparr>))"
proof -
  have pair: "merge_events [e1, e2] =
        [((isoformat (start_time e1), isoformat (end_time e1)),
          e1\<lparr>title := join [12289]
                           (first_seen (split 12289 (title e1) @ split 12289 (title e2)))\<rparr>)]"
    if "start_time e1 = start_time e2" "end_time e1 = end_time e2"
    using that by (rule merge_pair)
  have same: "join [12289] (first_seen (split 12289 t @ split 12289 t)) = t" if "12289 \<notin> set t" for t
    using that by (simp add: split_single)
  have two: "join [12289] (first_seen (split 12289 t @ split 12289 u)) = t @ [12289] @ u"
    if "12289 \<notin> set t" "12289 \<notin> set u" "t \<noteq> u" for t u
    using that by (simp add: split_single)
  have three: "join [12289] (first_seen (split 12289 [65, 12289, 66] @ split 12289 [66, 12289, 67])) =
      [65, 12289, 66, 12289, 67]"
    by simp
  have keys: "fst ` set (merge_events es) =
     (\<lambda>ev. (isoformat (start_time ev), isoformat (end_time ev))) ` set es"
    by (simp add: keys_merge_events key_explicit)
  have first: "map_of (merge_events es) k = Some m \<longrightarrow>
      (\<exists>f others.
         filter (\<lambda>ev. (isoformat (start_time ev), isoformat (end_time ev)) = k) es = f # others \<and>
         m = f\<lparr>title := foldl (\<lambda>t u. join [12289] (first_seen (split 12289 t @ split 12289 u)))
                              (title f) (map title others)\<rparr>)"
    using merged_is_first [of es k m] by blast
  have a: "start_time e1 = start_time e2 \<longrightarrow> end_time e1 = end_time e2 \<longrightarrow>
      merge_events [e1, e2] =
        [((isoformat (start_time e1), isoformat (end_time e1)),
          e1\<lparr>title := join [12289]
                           (first_seen (split 12289 (title e1) @ split 12289 (title e2)))\<rparr>)] \<and>
      (title e1 = [65] \<longrightarrow> title e2 = [65] \<longrightarrow>
         merge_events [e1, e2] = [((isoformat (start_time e1), isoformat (end_time e1)), e1)]) \<and>
      (title e1 = [65] \<longrightarrow> title e2 = [66] \<longrightarrow>
         merge_events [e1, e2] =
           [((isoformat (start_time e1), isoformat (end_time e1)),
             e1\<lparr>title := [65, 12289, 66]\<rparr>)]) \<and>
      (title e1 = [65, 12289, 66] \<longrightarrow> title e2 = [66, 12289, 67] \<longrightarrow>
         merge_events [e1, e2] =
           [((isoformat (start_time e1), isoformat (end_time e1)),
             e1\<lparr>title := [65, 12289, 66, 12289, 67]\<rparr>)]) \<and>
      (12289 \<notin> set (title e1) \<longrightarrow> title e2 = title e1 \<longrightarrow>
         merge_events [e1, e2] = [((isoformat (start_time e1), isoformat (end_time e1)), e1)]) \<and>
      (12289 \<notin> set (title e1) \<longrightarrow> 12289 \<notin> set (title e2) \<longrightarrow> title e1 \<noteq> title e2 \<longrightarrow>
         merge_events [e1, e2] =
           [((isoformat (start_time e1), isoformat (end_time e1)),
             e1\<lparr>title := title e1 @ [12289] @ title e2\<rparr>)])"
  proof (intro impI)
    assume w: "start_time e1 = start_time e2" "end_time e1 = end_time e2"
    note p = pair [OF w]
    have "title e1 = [65] \<longrightarrow> title e2 = [65] \<longrightarrow>
         merge_events [e1, e2] = [((isoformat (start_time e1), isoformat (end_time e1)), e1)]"
    proof (intro impI)
      assume t: "title e1 = [65]" "title e2 = [65]"
      have "join [12289] (first_seen (split 12289 (title e1) @ split 12289 (title e2))) = title e1"
        using t by simp
      then show "merge_events [e1, e2] = [((isoformat (start_time e1), isoformat (end_time e1)), e1)]"
        using p by simp
    qed
    moreover have "title e1 = [65] \<longrightarrow> title e2 = [66] \<longrightarrow>
         merge_events [e1, e2] =
           [((isoformat (start_time e1), isoformat (end_time e1)), e1\<lparr>title := [65, 12289, 66]\<rparr>)]"
      using p by simp
    moreover have "title e1 = [65, 12289, 66] \<longrightarrow> title e2 = [66, 12289, 67] \<longrightarrow>
         merge_events [e1, e2] =
           [((isoformat (start_time e1), isoformat (end_time e1)),
             e1\<lparr>title := [65, 12289, 66, 12289, 67]\<rparr>)]"
      using p three by simp
    moreover have "12289 \<notin> set (title e1) \<longrightarrow> title e2 = title e1 \<longrightarrow>
         merge_events [e1, e2] = [((isoformat (start_time e1), isoformat (end_time e1)), e1)]"
    proof (intro impI)
      assume t: "12289 \<notin> set (title e1)" "title e2 = title e1"
      have "join [12289] (first_seen (split 12289 (title e1) @ split 12289 (title e2))) = title e1"
        using t same [of "title e1"] by simp
      then show "merge_events [e1, e2] = [((isoformat (start_time e1), isoformat (end_time e1)), e1)]"
        using p by simp
    qed
    moreover have "12289 \<notin> set (title e1) \<longrightarrow> 12289 \<notin> set (title e2) \<longrightarrow> title e1 \<noteq> title e2 \<longrightarrow>
         merge_events [e1, e2] =
           [((isoformat (start_time e1), isoformat (end_time e1)),
             e1\<lparr>title := title e1 @ [12289] @ title e2\<rparr>)]"
      using p two [of "title e1" "title e2"] by simp
    ultimately show "merge_events [e1, e2] =
        [((isoformat (start_time e1), isoformat (end_time e1)),
          e1\<lparr>title := join [12289]
                           (first_seen (split 12289 (title e1) @ split 12289 (title e2)))\<rparr>)] \<and>
      (title e1 = [65] \<longrightarrow> title e2 = [65] \<longrightarrow>
         merge_events [e1, e2] = [((isoformat (start_time e1), isoformat (end_time e1)), e1)]) \<and>
      (title e1 = [65] \<longrightarrow> title e2 = [66] \<longrightarrow>
         merge_events [e1, e2] =
           [((isoformat (start_time e1), isoformat (end_time e1)),
             e1\<lparr>title := [65, 12289, 66]\<rparr>)]) \<and>
      (title e1 = [65, 12289, 66] \<longrightarrow> title e2 = [66, 12289, 67] \<longrightarrow>
         merge_events [e1, e2] =
           [((isoformat (start_time e1), isoformat (end_time e1)),
             e1\<lparr>title := [65, 12289, 66, 12289, 67]\<rparr>)]) \<and>
      (12289 \<notin> set (title e1) \<longrightarrow> title e2 = title e1 \<longrightarrow>
         merge_events [e1, e2] = [((isoformat (start_time e1), isoformat (end_time e1)), e1)]) \<and>
      (12289 \<notin> set (title e1) \<longrightarrow> 12289 \<notin> set (title e2) \<longrightarrow> title e1 \<noteq> title e2 \<longrightarrow>
         merge_events [e1, e2] =
           [((isoformat (start_time e1), isoformat (end_time e1)),
             e1\<lparr>title := title e1 @ [12289] @ title e2\<rparr>)])"
      using p by blast
  qed
  show ?thesis
    by (rule conjI [OF a conjI [OF split_merged conjI [OF distinct_first_seen
          conjI [OF set_first_seen [of "split 12289 a @ split 12289 b", simplified]
            conjI [OF keys first]]]]])
qed

theorem merge_same_window_witness:
  "merge_events [event_A, event_A] =
     [((asc ''2024-03-01T10:00:00'', asc ''2024-03-22T10:00:00''),
       \<lparr>title = [65], start_time = Datetime 63844884000000000,
         end_time = Datetime 63846698400000000, description = asc ''first''\<rparr>)] \<and>
   merge_events [event_A, event_B] =
     [((asc ''2024-03-01T10:00:00'', asc ''2024-03-22T10:00:00''),
       \<lparr>title = [65, 12289, 66], start_time = Datetime 63844884000000000,
         end_time = Datetime 63846698400000000, description = asc ''first''\<rparr>)] \<and>
   merge_events [event_AB, event_BC] =
     [((asc ''2024-03-01T10:00:00'', asc ''2024-03-22T10:00:00''),
       \<lparr>title = [65, 12289, 66, 12289, 67], start_time = Datetime 63844884000000000,
         end_time = Datetime 63846698400000000, description = []\<rparr>)] \<and>
   split 12289 [65, 12289, 66, 12289, 67] = [[65], [66], [67]] \<and>
   fst ` set (merge_events [event_A, event_B, event_AB]) =
     {(asc ''2024-03-01T10:00:00'', asc ''2024-03-22T10:00:00'')}"
proof -
  have 1: "merge_events [event_A, event_A] =
     [((asc ''2024-03-01T10:00:00'', asc ''2024-03-22T10:00:00''),
       \<lparr>title = [65], start_time = Datetime 63844884000000000,
         end_time = Datetime 63846698400000000, description = asc ''first''\<rparr>)]"
    using merge_same_window [of event_A event_A "[]" "[]" "[]" "([], [])" event_A]
    by (simp add: event_A_def iso_mar1 iso_mar22) (simp add: asc_def)
  have 2: "merge_events [event_A, event_B] =
     [((asc ''2024-03-01T10:00:00'', asc ''2024-03-22T10:00:00''),
       \<lparr>title = [65, 12289, 66], start_time = Datetime 63844884000000000,
         end_time = Datetime 63846698400000000, description = asc ''first''\<rparr>)]"
    using merge_same_window [of event_A event_B "[]" "[]" "[]" "([], [])" event_A]
    by (simp add: event_A_def event_B_def iso_mar1 iso_mar22) (simp add: asc_def)
  have 3: "merge_events [event_AB, event_BC] =
     [((asc ''2024-03-01T10:00:00'', asc ''2024-03-22T10:00:00''),
       \<lparr>title = [65, 12289, 66, 12289, 67], start_time = Datetime 63844884000000000,
         end_time = Datetime 63846698400000000, description = []\<rparr>)]"
    using merge_same_window [of event_AB event_BC "[]" "[]" "[]" "([], [])" event_A]
    by (simp add: event_AB_def event_BC_def iso_mar1 iso_mar22)
  have 4: "split 12289 [65, 12289, 66, 12289, 67] = [[65], [66], [67]]"
    using merge_same_window [of event_A event_A "[65, 12289, 66]" "[66, 12289, 67]" "[]" "([], [])" event_A]
    by simp
  have 5: "fst ` set (merge_events [event_A, event_B, event_AB]) =
     {(asc ''2024-03-01T10:00:00'', asc ''2024-03-22T10:00:00'')}"
    using merge_same_window [of event_A event_A "[]" "[]" "[event_A, event_B, event_AB]"
        "([], [])" event_A]
    by (simp add: event_A_def event_B_def event_AB_def iso_mar1 iso_mar22)
  show ?thesis using 1 2 3 4 5 by simp
qed

section \<open>Merging a permuted input\<close>

lemma distinct_fold_titles:
  "us \<noteq> [] \<Longrightarrow> distinct (split 12289 (foldl merge_titles t us))"
proof (cases us rule: rev_cases)
  case Nil
  assume "us \<noteq> []"
  with Nil show ?thesis by simp
next
  case (snoc vs u)
  show ?thesis
    by (simp add: snoc merge_titles_explicit split_merged distinct_first_seen)
qed

lemma merged_of_filter:
  assumes "map_of (merge_events es) k = Some m"
  obtains f others where "filter (\<lambda>ev. time_key_of ev = k) es = f # others"
    and "m = f\<lparr>title := foldl merge_titles (title f) (map title others)\<rparr>"
  using assms by (auto simp: map_of_merge_events split: list.splits)

lemma merged_permuted:
  assumes perm: "mset xs = mset ys"
    and m1: "map_of (merge_events xs) k = Some m1"
    and m2: "map_of (merge_events ys) k = Some m2"
  shows "mset (split 12289 (title m1)) = mset (split 12289 (title m2))"
proof -
  obtain f1 o1 where f1: "filter (\<lambda>ev. time_key_of ev = k) xs = f1 # o1"
    and t1: "m1 = f1\<lparr>title := foldl merge_titles (title f1) (map title o1)\<rparr>"
    using m1 by (rule merged_of_filter)
  obtain f2 o2 where f2: "filter (\<lambda>ev. time_key_of ev = k) ys = f2 # o2"
    and t2: "m2 = f2\<lparr>title := foldl merge_titles (title f2) (map title o2)\<rparr>"
    using m2 by (rule merged_of_filter)
  have "mset (filter (\<lambda>ev. time_key_of ev = k) xs) = mset (filter (\<lambda>ev. time_key_of ev = k) ys)"
    using perm by simp
  then have same: "mset (f1 # o1) = mset (f2 # o2)" by (simp only: f1 f2)
  then have len: "length o1 = length o2" using mset_eq_length [OF same] by simp
  show ?thesis
  proof (cases o1)
    case Nil
    then have "o2 = []" using len by simp
    then have "f1 = f2" using same Nil by simp
    then show ?thesis using t1 t2 Nil \<open>o2 = []\<close> by simp
  next
    case (Cons a as)
    then have n1: "map title o1 \<noteq> []" by simp
    have n2: "map title o2 \<noteq> []" using len Cons by (cases o2) auto
    have "title_segments (merge_events xs) k = title_segments (merge_events ys) k"
      using mset_eq_setD [OF perm] by (simp add: segments_merge_events)
    then have "set (split 12289 (title m1)) = set (split 12289 (title m2))"
      using m1 m2 by (simp add: title_segments_def DELIM_def)
    moreover have "distinct (split 12289 (title m1))"
      using distinct_fold_titles [OF n1] by (simp add: t1)
    moreover have "distinct (split 12289 (title m2))"
      using distinct_fold_titles [OF n2] by (simp add: t2)
    ultimately show ?thesis by (simp add: set_eq_iff_mset_eq_distinct)
  qed
qed

lemma merged_fields:
  assumes "map_of (merge_events es) k = Some m"
  shows "\<exists>f \<in> set es. (isoformat (start_time f), isoformat (end_time f)) = k \<and>
           start_time m = start_time f \<and> end_time m = end_time f \<and>
           description m = description f"
proof -
  obtain f others where f: "filter (\<lambda>ev. time_key_of ev = k) es = f # others"
    and t: "m = f\<lparr>title := foldl merge_titles (title f) (map title others)\<rparr>"
    using assms by (rule merged_of_filter)
  have "f \<in> set (filter (\<lambda>ev. time_key_of ev = k) es)" by (simp add: f)
  then have "f \<in> set es" "time_key_of f = k" by simp_all
  then show ?thesis using t by (auto simp: time_key_of_def)
qed

text \<open>
  C8, amended. For every list of events and every permutation of it, \<open>merge_events\<close>
  gives the same set of keys, and under each key titles with the same segments (split
  at the code point 12289, U+3001), each as often: the two titles differ at most in the
  order of their segments. The start, end and description under a key are those of an
  input event with that key (the first one in the order given), and the ISO strings of
  start and end are the key in both results; start, end and description themselves are
  the same in both results when the input events of that key agree on them.
\<close>

theorem merge_order_stable:
  assumes "mset xs = mset ys"
  shows "fst ` set (merge_events xs) = fst ` set (merge_events ys) \<and>
    (\<forall>k. (map_of (merge_events xs) k = None) = (map_of (merge_events ys) k = None)) \<and>
    (\<forall>k m1 m2. map_of (merge_events xs) k = Some m1 \<longrightarrow> map_of (merge_events ys) k = Some m2 \<longrightarrow>
       set (split 12289 (title m1)) = set (split 12289 (title m2)) \<and>
       mset (split 12289 (title m1)) = mset (split 12289 (title m2)) \<and>
       (isoformat (start_time m1), isoformat (end_time m1)) = k \<and>
       (isoformat (start_time m2), isoformat (end_time m2)) = k \<and>
       (\<exists>f1 \<in> set xs. \<exists>f2 \<in> set xs.
          (isoformat (start_time f1), isoformat (end_time f1)) = k \<and>
          (isoformat (start_time f2), isoformat (end_time f2)) = k \<and>
          start_time m1 = start_time f1 \<and> end_time m1 = end_time f1 \<and>
          description m1 = description f1 \<and>
          start_time m2 = start_time f2 \<and> end_time m2 = end_time f2 \<and>
          description m2 = description f2) \<and>
       ((\<forall>e \<in> set xs. \<forall>e' \<in> set xs.
           (isoformat (start_time e), isoformat (end_time e)) = k \<longrightarrow>
           (isoformat (start_time e'), isoformat (end_time e')) = k \<longrightarrow>
           start_time e = start_time e' \<and> end_time e = end_time e' \<and>
           description e = description e') \<longrightarrow>
        start_time m1 = start_time m2 \<and> end_time m1 = end_time m2 \<and>
        description m1 = description m2))"
proof (intro conjI allI impI)
  have sets: "set xs = set ys" using assms by (rule mset_eq_setD)
  show keys: "fst ` set (merge_events xs) = fst ` set (merge_events ys)"
    by (simp add: keys_merge_events sets)
  fix k
  show "(map_of (merge_events xs) k = None) = (map_of (merge_events ys) k = None)"
    using keys by (simp add: map_of_eq_None_iff)
  fix m1 m2
  assume m1: "map_of (merge_events xs) k = Some m1" and m2: "map_of (merge_events ys) k = Some m2"
  show ms: "mset (split 12289 (title m1)) = mset (split 12289 (title m2))"
    using assms m1 m2 by (rule merged_permuted)
  show "set (split 12289 (title m1)) = set (split 12289 (title m2))"
    using ms by (rule mset_eq_setD)
  obtain f1 where f1: "f1 \<in> set xs" "(isoformat (start_time f1), isoformat (end_time f1)) = k"
      "start_time m1 = start_time f1" "end_time m1 = end_time f1" "description m1 = description f1"
    using merged_fields [OF m1] by blast
  obtain f2 where f2: "f2 \<in> set xs" "(isoformat (start_time f2), isoformat (end_time f2)) = k"
      "start_time m2 = start_time f2" "end_time m2 = end_time f2" "description m2 = description f2"
    using merged_fields [OF m2] sets by blast
  show "(isoformat (start_time m1), isoformat (end_time m1)) = k" using f1 by simp
  show "(isoformat (start_time m2), isoformat (end_time m2)) = k" using f2 by simp
  show "\<exists>f1 \<in> set xs. \<exists>f2 \<in> set xs.
          (isoformat (start_time f1), isoformat (end_time f1)) = k \<and>
          (isoformat (start_time f2), isoformat (end_time f2)) = k \<and>
          start_time m1 = start_time f1 \<and> end_time m1 = end_time f1 \<and>
          description m1 = description f1 \<and>
          start_time m2 = start_time f2 \<and> end_time m2 = end_time f2 \<and>
          description m2 = description f2"
    using f1 f2 by blast
  assume agree: "\<forall>e \<in> set xs. \<forall>e' \<in> set xs.
           (isoformat (start_time e), isoformat (end_time e)) = k \<longrightarrow>
           (isoformat (start_time e'), isoformat (end_time e')) = k \<longrightarrow>
           start_time e = start_time e' \<and> end_time e = end_time e' \<and>
           description e = description e'"
  have a: "start_time f1 = start_time f2 \<and> end_time f1 = end_time f2 \<and>
           description f1 = description f2"
    using agree f1(1,2) f2(1,2) by blast
  show "start_time m1 = start_time m2" using a f1 f2 by simp
  show "end_time m1 = end_time m2" using a f1 f2 by simp
  show "description m1 = description m2" using a f1 f2 by simp
qed

theorem merge_order_stable_witness:
  "mset [event_AB, event_BC] = mset [event_BC, event_AB] \<and>
   merge_events [event_AB, event_BC] =
     [((asc ''2024-03-01T10:00:00'', asc ''2024-03-22T10:00:00''),
       \<lparr>title = [65, 12289, 66, 12289, 67], start_time = Datetime 63844884000000000,
         end_time = Datetime 63846698400000000, description = []\<rparr>)] \<and>
   merge_events [event_BC, event_AB] =
     [((asc ''2024-03-01T10:00:00'', asc ''2024-03-22T10:00:00''),
       \<lparr>title = [66, 12289, 67, 12289, 65], start_time = Datetime 63844884000000000,
         end_time = Datetime 63846698400000000, description = []\<rparr>)] \<and>
   fst ` set (merge_events [event_AB, event_BC]) = fst ` set (merge_events [event_BC, event_AB]) \<and>
   set (split 12289 [65, 12289, 66, 12289, 67]) = set (split 12289 [66, 12289, 67, 12289, 65]) \<and>
   mset (split 12289 [65, 12289, 66, 12289, 67]) = mset (split 12289 [66, 12289, 67, 12289, 65]) \<and>
   split 12289 [65, 12289, 66, 12289, 67] = [[65], [66], [67]] \<and>
   split 12289 [66, 12289, 67, 12289, 65] = [[66], [67], [65]]"
proof -
  have w: "start_time event_AB = start_time event_BC" "end_time event_AB = end_time event_BC"
    by (simp_all add: event_AB_def event_BC_def)
  have p: "mset [event_AB, event_BC] = mset [event_BC, event_AB]" by simp
  have r1: "merge_events [event_AB, event_BC] =
     [((asc ''2024-03-01T10:00:00'', asc ''2024-03-22T10:00:00''),
       \<lparr>title = [65, 12289, 66, 12289, 67], start_time = Datetime 63844884000000000,
         end_time = Datetime 63846698400000000, description = []\<rparr>)]"
    unfolding merge_pair [OF w] by (simp add: event_AB_def event_BC_def iso_mar1 iso_mar22)
  have r2: "merge_events [event_BC, event_AB] =
     [((asc ''2024-03-01T10:00:00'', asc ''2024-03-22T10:00:00''),
       \<lparr>title = [66, 12289, 67, 12289, 65], start_time = Datetime 63844884000000000,
         end_time = Datetime 63846698400000000, description = []\<rparr>)]"
    unfolding merge_pair [OF w [symmetric]]
    by (simp add: event_AB_def event_BC_def iso_mar1 iso_mar22)
  note t = merge_order_stable [OF p]
  have keys: "fst ` set (merge_events [event_AB, event_BC]) =
      fst ` set (merge_events [event_BC, event_AB])"
    using t by (rule conjunct1)
  have "set (split 12289 [65, 12289, 66, 12289, 67]) = set (split 12289 [66, 12289, 67, 12289, 65]) \<and>
   mset (split 12289 [65, 12289, 66, 12289, 67]) = mset (split 12289 [66, 12289, 67, 12289, 65])"
    using t [THEN conjunct2, THEN conjunct2, rule_format,
        of "(asc ''2024-03-01T10:00:00'', asc ''2024-03-22T10:00:00'')"
           "\<lparr>title = [65, 12289, 66, 12289, 67], start_time = Datetime 63844884000000000,
              end_time = Datetime 63846698400000000, description = []\<rparr>"
           "\<lparr>title = [66, 12289, 67, 12289, 65], start_time = Datetime 63844884000000000,
              end_time = Datetime 63846698400000000, description = []\<rparr>"]
    unfolding r1 r2 by simp
  then show ?thesis using p r1 r2 keys by simp
qed

text \<open>
  C8, the claim as first stated fails: two events of one window with different
  descriptions. Both orders give one entry under the same key with the same segments,
  but the entry keeps the description of the event that came first, so the two results
  differ in more than the order of the segments of the title.
\<close>

theorem merge_order_stable_counterexample:
  "mset [event_A, event_B] = mset [event_B, event_A] \<and>
   merge_events [event_A, event_B] =
     [((asc ''2024-03-01T10:00:00'', asc ''2024-03-22T10:00:00''),
       \<lparr>title = [65, 12289, 66], start_time = Datetime 63844884000000000,
         end_time = Datetime 63846698400000000, description = asc ''first''\<rparr>)] \<and>
   merge_events [event_B, event_A] =
     [((asc ''2024-03-01T10:00:00'', asc ''2024-03-22T10:00:00''),
       \<lparr>title = [66, 12289, 65], start_time = Datetime 63844884000000000,
         end_time = Datetime 63846698400000000, description = asc ''second''\<rparr>)] \<and>
   asc ''first'' \<noteq> asc ''second''"
proof -
  have w: "start_time event_A = start_time event_B" "end_time event_A = end_time event_B"
    by (simp_all add: event_A_def event_B_def)
  have "merge_events [event_A, event_B] =
     [((asc ''2024-03-01T10:00:00'', asc ''2024-03-22T10:00:00''),
       \<lparr>title = [65, 12289, 66], start_time = Datetime 63844884000000000,
         end_time = Datetime 63846698400000000, description = asc ''first''\<rparr>)]"
    unfolding merge_pair [OF w]
    by (simp add: event_A_def event_B_def iso_mar1 iso_mar22) (simp add: asc_def)
  moreover have "merge_events [event_B, event_A] =
     [((asc ''2024-03-01T10:00:00'', asc ''2024-03-22T10:00:00''),
       \<lparr>title = [66, 12289, 65], start_time = Datetime 63844884000000000,
         end_time = Datetime 63846698400000000, description = asc ''second''\<rparr>)]"
    unfolding merge_pair [OF w [symmetric]]
    by (simp add: event_A_def event_B_def iso_mar1 iso_mar22) (simp add: asc_def)
  moreover have "asc ''first'' \<noteq> asc ''second''" by (simp add: asc_def)
  ultimately show ?thesis by simp
qed

section \<open>Calendar entries\<close>










section \<open>The version cache\<close>

lemma map_of_dict_set: "map_of (dict_set k x kvs) k = Some x"
proof (cases "map_of kvs k")
  case None
  then show ?thesis by (simp add: dict_set_def map_add_def)
next
  case (Some y)
  have "map_of (map (\<lambda>(k', v'). if k' = k then (k', x) else (k', v')) kvs) k =
          map_option (\<lambda>_. x) (map_of kvs k)"
    by (induction kvs) auto
  then show ?thesis using Some by (simp add: dict_set_def)
qed

lemma fetch_world:
  "snd (fetch_version_start_time e w v) = w\<lparr>lookups := lookups w @ [v]\<rparr>"
  by (simp add: fetch_version_start_time_def Let_def split: response.splits list.splits prod.splits)

lemma hit_unchanged:
  assumes "version_file w = Some (JDict kvs)" and "map_of kvs v = Some x"
  shows "get_version_start_time e w v =
           ((case x of JStr stamp \<Rightarrow> fromisoformat e stamp | _ \<Rightarrow> None), w)"
  using assms
  by (cases x) (simp_all add: get_version_start_time_def load_version_data_def)

lemma resolve_dumps_le: "dumps (snd (get_version_start_time e w v)) \<le> Suc (dumps w)"
proof -
  obtain r w' where f: "fetch_version_start_time e w v = (r, w')"
    by (cases "fetch_version_start_time e w v")
  then have w': "w' = w\<lparr>lookups := lookups w @ [v]\<rparr>" using fetch_world [of e w v] by simp
  show ?thesis
    using f w'
    by (auto simp: get_version_start_time_def save_version_data_def Let_def
        split: sum.splits bool.splits jv.splits option.splits if_splits)
qed

lemma persisted_then_hit:
  assumes "dumps (snd (get_version_start_time e w v)) \<noteq> dumps w"
  shows "snd (get_version_start_time e (snd (get_version_start_time e w v)) v) =
           snd (get_version_start_time e w v)"
proof -
  obtain r w' where f: "fetch_version_start_time e w v = (r, w')"
    by (cases "fetch_version_start_time e w v")
  then have w': "w' = w\<lparr>lookups := lookups w @ [v]\<rparr>" using fetch_world [of e w v] by simp
  have "\<exists>kvs t. snd (get_version_start_time e w v) =
           w'\<lparr>version_file := Some (JDict (dict_set v (JStr (isoformat t)) kvs)),
               dumps := Suc (dumps w')\<rparr>"
    using assms f w'
    by (auto simp: get_version_start_time_def save_version_data_def Let_def
        split: sum.splits bool.splits jv.splits option.splits if_splits)
  then obtain kvs t where w1: "snd (get_version_start_time e w v) =
           w'\<lparr>version_file := Some (JDict (dict_set v (JStr (isoformat t)) kvs)),
               dumps := Suc (dumps w')\<rparr>"
    by blast
  show ?thesis
    unfolding w1
    by (simp add: hit_unchanged [where kvs = "dict_set v (JStr (isoformat t)) kvs"
          and x = "JStr (isoformat t)"] map_of_dict_set)
qed

lemma resolve_twice_dumps: "dumps (snd (snd (resolve_twice e w v))) \<le> Suc (dumps w)"
proof -
  let ?w1 = "snd (get_version_start_time e w v)"
  let ?w2 = "snd (get_version_start_time e ?w1 v)"
  have tw: "snd (snd (resolve_twice e w v)) = ?w2"
    by (simp add: resolve_twice_def split: prod.splits)
  show ?thesis
  proof (cases "dumps ?w1 = dumps w")
    case True
    then show ?thesis using resolve_dumps_le [of e ?w1 v] tw by simp
  next
    case False
    then have "?w2 = ?w1" by (rule persisted_then_hit)
    then show ?thesis using resolve_dumps_le [of e w v] tw by simp
  qed
qed

lemma populate_then_hit:
  assumes "version_file w = Some (JDict kvs)" and "map_of kvs v = None"
    and "fst (fetch_version_start_time e w v) = Some t" and "writable w"
    and "fromisoformat e (isoformat t) = Some t"
  shows "resolve_twice e w v =
           (Some t, Some t,
            w\<lparr>version_file := Some (JDict (kvs @ [(v, JStr (isoformat t))])),
               lookups := lookups w @ [v], dumps := Suc (dumps w)\<rparr>)"
proof -
  let ?w' = "w\<lparr>lookups := lookups w @ [v]\<rparr>"
  let ?w1 = "?w'\<lparr>version_file := Some (JDict (kvs @ [(v, JStr (isoformat t))])),
                  dumps := Suc (dumps w)\<rparr>"
  have f: "fetch_version_start_time e w v = (Some t, ?w')"
    using assms(3) fetch_world [of e w v] by (cases "fetch_version_start_time e w v") simp
  have one: "get_version_start_time e w v = (Some t, ?w1)"
    using assms(1,2,4) f
    by (simp add: get_version_start_time_def load_version_data_def save_version_data_def
        dict_set_def)
  have two: "get_version_start_time e ?w1 v = (Some t, ?w1)"
    using hit_unchanged [of ?w1 "kvs @ [(v, JStr (isoformat t))]" v "JStr (isoformat t)" e]
      assms(2,5)
    by (simp add: map_add_def)
  show ?thesis using one two by (simp add: resolve_twice_def)
qed
lemma contains_refl: "contains n n"
  unfolding contains_iff by (rule exI [of _ "[]"], rule exI [of _ "[]"]) simp

lemma iso_release: "isoformat release_1_5 = asc ''2024-03-15T12:00:00''"
  by (simp add: release_1_5_def iso_eval)

text \<open>
  C10. For every version label present in the loaded cache with a timestamp the library
  parses, \<open>_get_version_start_time\<close> returns the cached timestamp and leaves the state
  as it was: no external lookup, no write. So resolving the same version twice in
  sequence returns the same timestamp both times; and for every state, two calls in
  sequence complete at most one write of the cache (one when the first call learns the
  version from the lookup and stores it, after which the second call is a hit, provided
  the library reads back the ISO string it wrote). When the cached value of a present
  version is not a string the library parses, the result is \<open>None\<close> and again no
  lookup takes place.
\<close>

theorem cache_hit:
  "(version_file w = Some (JDict kvs) \<longrightarrow> map_of kvs v = Some (JStr stamp) \<longrightarrow>
      fromisoformat e stamp = Some t \<longrightarrow>
      get_version_start_time e w v = (Some t, w) \<and> resolve_twice e w v = (Some t, Some t, w)) \<and>
   dumps (snd (snd (resolve_twice e w v))) \<le> Suc (dumps w) \<and>
   (version_file w = Some (JDict kvs) \<longrightarrow> map_of kvs v = None \<longrightarrow>
      fst (fetch_version_start_time e w v) = Some t \<longrightarrow> writable w \<longrightarrow>
      fromisoformat e (isoformat t) = Some t \<longrightarrow>
      resolve_twice e w v =
        (Some t, Some t,
         w\<lparr>version_file := Some (JDict (kvs @ [(v, JStr (isoformat t))])),
            lookups := lookups w @ [v], dumps := Suc (dumps w)\<rparr>)) \<and>
   (version_file w = Some (JDict kvs) \<longrightarrow> map_of kvs v = Some (JStr stamp) \<longrightarrow>
      fromisoformat e stamp = None \<longrightarrow> get_version_start_time e w v = (None, w)) \<and>
   (version_file w = Some (JDict kvs) \<longrightarrow> map_of kvs v = Some x \<longrightarrow>
      (x = JOther \<or> x = JList xs \<or> x = JDict ys) \<longrightarrow> get_version_start_time e w v = (None, w))"
proof -
  have a: "get_version_start_time e w v = (Some t, w) \<and> resolve_twice e w v = (Some t, Some t, w)"
    if "version_file w = Some (JDict kvs)" "map_of kvs v = Some (JStr stamp)"
      "fromisoformat e stamp = Some t"
    using hit_unchanged [OF that(1,2), of e] that(3) by (simp add: resolve_twice_def)
  have c: "get_version_start_time e w v = (None, w)"
    if "version_file w = Some (JDict kvs)" "map_of kvs v = Some (JStr stamp)"
      "fromisoformat e stamp = None"
    using hit_unchanged [OF that(1,2), of e] that(3) by simp
  have d: "get_version_start_time e w v = (None, w)"
    if "version_file w = Some (JDict kvs)" "map_of kvs v = Some x"
      "x = JOther \<or> x = JList xs \<or> x = JDict ys"
    using hit_unchanged [OF that(1,2), of e] that(3) by auto
  show ?thesis
    using a c d resolve_twice_dumps [of e w v] populate_then_hit [of w kvs v e t]
    by blast
qed

theorem cache_hit_witness:
  "get_version_start_time stub_env cached_world (asc ''1.5'') = (Some release_1_5, cached_world) \<and>
   resolve_twice stub_env cached_world (asc ''1.5'') = (Some release_1_5, Some release_1_5, cached_world) \<and>
   lookups cached_world = [] \<and> dumps cached_world = 0 \<and>
   fst (fetch_version_start_time stub_env fresh_world (asc ''1.5'')) = Some release_1_5 \<and>
   resolve_twice stub_env fresh_world (asc ''1.5'') =
     (Some release_1_5, Some release_1_5,
      fresh_world\<lparr>version_file := Some (JDict [(asc ''1.5'', JStr (asc ''2024-03-15T12:00:00''))]),
                  lookups := [asc ''1.5''], dumps := 1\<rparr>) \<and>
   fst (fetch_version_start_time stub_env corrupt_world (asc ''1.5'')) = Some release_1_5 \<and>
   get_version_start_time stub_env corrupt_world (asc ''1.5'') = (None, corrupt_world) \<and>
   get_version_start_time stub_env
     (corrupt_world\<lparr>version_file := Some (JDict [(asc ''1.5'', JOther)])\<rparr>) (asc ''1.5'') =
     (None, corrupt_world\<lparr>version_file := Some (JDict [(asc ''1.5'', JOther)])\<rparr>)"
proof -
  have f: "fst (fetch_version_start_time stub_env w (asc ''1.5'')) = Some release_1_5" for w
    by (simp add: fetch_version_start_time_def stub_env_def Let_def contains_refl)
  have i: "fromisoformat stub_env (asc ''2024-03-15T12:00:00'') = Some release_1_5"
    "fromisoformat stub_env (asc ''soon'') = None"
    by (simp_all add: stub_env_def asc_def)
  show ?thesis
    using cache_hit [of cached_world "[(asc ''1.5'', JStr (asc ''2024-03-15T12:00:00''))]"
            "asc ''1.5''" "asc ''2024-03-15T12:00:00''" stub_env release_1_5]
          cache_hit [of fresh_world "[]" "asc ''1.5''" _ stub_env release_1_5]
          cache_hit [of corrupt_world "[(asc ''1.5'', JStr (asc ''soon''))]" "asc ''1.5''"
            "asc ''soon''" stub_env]
          cache_hit [of "corrupt_world\<lparr>version_file := Some (JDict [(asc ''1.5'', JOther)])\<rparr>"
            "[(asc ''1.5'', JOther)]" "asc ''1.5''" _ stub_env _ JOther]
          f i iso_release
    by (simp add: cached_world_def fresh_world_def corrupt_world_def)
qed

end
